theory Spec2Isabelle
  imports Complex_Main "HOL-Library.AList"
begin

section \<open>EasyCache: the cache engine of eca.js\<close>

text \<open>
  The engine is the class \<open>EasyCache\<close> of \<open>src/easycache.js\<close>. Its four JavaScript
  \<open>Map\<close>s (\<open>cache\<close>, \<open>timers\<close>, \<open>accessOrder\<close>, \<open>tagsMap\<close>) are association lists
  with distinct keys: a JavaScript \<open>Map\<close> iterates in insertion order, \<open>Map.set\<close> on a key
  that is present keeps its position and on a new key appends, which is what
  \<open>AList.update\<close> does; \<open>Map.delete\<close> is \<open>AList.delete\<close>, \<open>Map.get\<close> is \<open>map_of\<close> and
  \<open>Map.size\<close> is \<open>length\<close>. A JavaScript \<open>Set\<close> of keys is a list without duplicates in
  insertion order.

  A method of the engine is modelled as the caller awaiting it: it runs until its promise
  settles, and its result is \<open>Inr\<close> of what it returns or \<open>Inl\<close> of what it throws (the
  rejection). A call of a storage method takes effect when it is made. Where the engine
  starts \<open>delete\<close> without awaiting it (\<open>_evictLRU\<close>), the started deletion is kept in
  \<open>pending\<close> and goes on, one step at a time, while the method that started it waits at
  its own \<open>await\<close>s; which steps run at which \<open>await\<close> is the \<open>schedule\<close> of the call, and
  \<open>prompt\<close> is the schedule of a backend whose promises are settled when it returns them,
  as the in-memory adapter's are. Two methods in flight at once are not a call of the
  model; the two halves of \<open>set\<close> around its storage write are given separately
  (\<open>set_until_write\<close>, \<open>set_after_write\<close>) so that sets that were not awaited can be
  followed by hand.

  The clock \<open>Date.now()\<close> is an input: an operation takes \<open>now :: nat \<Rightarrow> int\<close>, and
  \<open>now i\<close> is what the \<open>i\<close>-th call site of \<open>Date.now()\<close> in that method reads (numbered
  from \<open>0\<close> in the order of the source text). \<open>emitted\<close> is the list of the calls of
  \<open>this.emit\<close>. The engine is a Node \<open>EventEmitter\<close>: \<open>emit('error', e)\<close> throws \<open>e\<close> when
  no listener for \<open>error\<close> is registered, which is the state of a new engine; listeners
  are taken to return normally. A timer is the entry of \<open>timers\<close> with the delay it was
  armed for and the place that armed it; the firing of timers and the periodic
  \<open>_cleanup\<close> sweep are not among the calls modelled.
\<close>

subsection \<open>Values, notifications, metadata\<close>

type_synonym key = string
type_synonym tag = string

datatype jsval = Undefined | JNull | JBool bool | JNum int | JStr string

datatype exn = Error string

datatype ret = RFalse | RThis

datatype event =
    EvSet key jsval
  | EvGet key jsval
  | EvDelete key jsval
  | EvExpired key jsval
  | EvEvicted key jsval
  | EvClear
  | EvCleanup nat
  | EvError exn

record item =
  createdAt :: int
  expiresAt :: "int option"
  accessCount :: nat
  tags :: "tag list"

datatype timer_origin = FromSet | FromGet | FromTouch

record timer =
  delay :: int
  origin :: timer_origin
  payload :: jsval

record statistics =
  hits :: nat
  misses :: nat
  sets :: nat
  deletes :: nat
  evictions :: nat
  totalAccesses :: nat
  totalExpired :: nat

text \<open>
  A deletion that was started and has not finished. \<open>AwaitGet k it r\<close>: \<open>delete(k)\<close> found
  the metadata \<open>it\<close>, called \<open>storage.get\<close>, whose outcome is \<open>r\<close>, and waits for it.
  \<open>AwaitDelete k it v r\<close>: it has the value \<open>v\<close> for its notification, called
  \<open>storage.delete\<close>, whose outcome is \<open>r\<close>, and waits for it.
\<close>

datatype pending =
    AwaitGet key item "exn + jsval"
  | AwaitDelete key item jsval "exn + bool"

record 's engine =
  cache :: "(key \<times> item) list"
  timers :: "(key \<times> timer) list"
  accessOrder :: "(key \<times> int) list"
  tagsMap :: "(tag \<times> key list) list"
  stats :: statistics
  emitted :: "event list"
  storage :: 's
  errorListener :: bool
  pending :: "pending list"
  unhandled :: "exn list"

subsection \<open>The storage adapter contract and the options\<close>

text \<open>
  A storage adapter is any object with \<open>get\<close>, \<open>set\<close>, \<open>delete\<close>, \<open>has\<close> and \<open>clear\<close>;
  each call may change the backend (type \<open>'s\<close>) and either returns or throws. The
  methods are asynchronous (the contract asks for promises): what they throw is a
  rejection, met at the \<open>await\<close>.
\<close>

record 's adapter =
  ad_get :: "'s \<Rightarrow> key \<Rightarrow> (exn + jsval) \<times> 's"
  ad_set :: "'s \<Rightarrow> key \<Rightarrow> jsval \<Rightarrow> (exn + bool) \<times> 's"
  ad_delete :: "'s \<Rightarrow> key \<Rightarrow> (exn + bool) \<times> 's"
  ad_has :: "'s \<Rightarrow> key \<Rightarrow> (exn + bool) \<times> 's"
  ad_clear :: "'s \<Rightarrow> (exn + bool) \<times> 's"

text \<open>
  \<open>maxSize\<close> is a JavaScript number: a rational, since \<open>maxSize: 2.5\<close> is accepted.
  Options that are not finite numbers (\<open>NaN\<close>, \<open>Infinity\<close>, a string) are outside the
  model.
\<close>

record 's options =
  maxSize :: rat
  defaultTTL :: int
  slidingTTL :: bool
  enableStats :: bool
  serialize :: "jsval \<Rightarrow> exn + jsval"
  deserialize :: "jsval \<Rightarrow> exn + jsval"
  maxEntriesPerTag :: "tag \<Rightarrow> int option"
  adapter :: "'s adapter"

text \<open>\<open>MemoryAdapter\<close> of \<open>src/adapters/memory.js\<close>: a \<open>Map\<close>; no method throws.\<close>

definition MemoryAdapter :: "(key \<times> jsval) list adapter" where
  "MemoryAdapter =
     \<lparr> ad_get = (\<lambda>s k. (Inr (case map_of s k of None \<Rightarrow> Undefined | Some v \<Rightarrow> v), s)),
       ad_set = (\<lambda>s k v. (Inr True, AList.update k v s)),
       ad_delete = (\<lambda>s k. (Inr (map_of s k \<noteq> None), AList.delete k s)),
       ad_has = (\<lambda>s k. (Inr (map_of s k \<noteq> None), s)),
       ad_clear = (\<lambda>s. (Inr True, [])) \<rparr>"

text \<open>
  The constructor: \<open>this.options = { maxSize: options.maxSize || 1000, ..., ...options }\<close>.
  The spread \<open>...options\<close> comes last, so a property the caller gave wins over the
  default computed before it, also when it is \<open>0\<close>. A property the caller did not give
  is \<open>None\<close>.
\<close>

record raw_options =
  raw_maxSize :: "rat option"
  raw_defaultTTL :: "int option"
  raw_slidingTTL :: "bool option"
  raw_enableStats :: "bool option"

definition or_default :: "'a::zero option \<Rightarrow> 'a \<Rightarrow> 'a" where
  "or_default v d = (case v of None \<Rightarrow> d | Some x \<Rightarrow> if x \<noteq> 0 then x else d)"

definition spread :: "'a option \<Rightarrow> 'a \<Rightarrow> 'a" where
  "spread v d = (case v of None \<Rightarrow> d | Some x \<Rightarrow> x)"

definition constructor ::
  "raw_options \<Rightarrow> (jsval \<Rightarrow> exn + jsval) \<Rightarrow> (jsval \<Rightarrow> exn + jsval) \<Rightarrow> (tag \<Rightarrow> int option)
     \<Rightarrow> 's adapter \<Rightarrow> 's options" where
  "constructor raw ser de per_tag ad =
     \<lparr> maxSize = spread (raw_maxSize raw) (or_default (raw_maxSize raw) 1000),
       defaultTTL = spread (raw_defaultTTL raw) (or_default (raw_defaultTTL raw) 0),
       slidingTTL = spread (raw_slidingTTL raw)
                      (case raw_slidingTTL raw of None \<Rightarrow> False | Some b \<Rightarrow> b),
       enableStats = spread (raw_enableStats raw)
                      (case raw_enableStats raw of None \<Rightarrow> True | Some b \<Rightarrow> b),
       serialize = ser, deserialize = de, maxEntriesPerTag = per_tag, adapter = ad \<rparr>"

definition no_stats :: statistics where
  "no_stats = \<lparr> hits = 0, misses = 0, sets = 0, deletes = 0, evictions = 0,
                totalAccesses = 0, totalExpired = 0 \<rparr>"

text \<open>A new engine has no listener; \<open>cache.on('error', f)\<close> registers one.\<close>

definition new_engine :: "'s \<Rightarrow> 's engine" where
  "new_engine s = \<lparr> cache = [], timers = [], accessOrder = [], tagsMap = [],
                     stats = no_stats, emitted = [], storage = s,
                     errorListener = False, pending = [], unhandled = [] \<rparr>"

definition on_error :: "'s engine \<Rightarrow> 's engine" where
  "on_error st = st\<lparr>errorListener := True\<rparr>"

subsection \<open>Small steps shared by the methods\<close>

text \<open>\<open>emit\<close> of a notification other than \<open>error\<close>.\<close>

definition emit :: "event \<Rightarrow> 's engine \<Rightarrow> 's engine" where
  "emit ev st = st\<lparr>emitted := emitted st @ [ev]\<rparr>"

text \<open>
  \<open>this.emit('error', e)\<close>: the call is made, and it throws \<open>e\<close> when no listener for
  \<open>error\<close> is registered.
\<close>

definition emit_error :: "exn \<Rightarrow> 's engine \<Rightarrow> exn option \<times> 's engine" where
  "emit_error e st = ((if errorListener st then None else Some e), emit (EvError e) st)"

text \<open>
  The \<open>catch\<close> block of \<open>set\<close>, \<open>delete\<close> and \<open>clear\<close>:
  \<open>catch (error) { this.emit('error', error); return this; }\<close>, after a \<open>try\<close> block that
  ended with the outcome \<open>r\<close>.
\<close>

definition caught :: "(exn + ret) \<times> 's engine \<Rightarrow> (exn + ret) \<times> 's engine" where
  "caught r =
     (case r of
        (Inr x, st) \<Rightarrow> (Inr x, st)
      | (Inl e, st) \<Rightarrow>
          (case emit_error e st of
             (None, st') \<Rightarrow> (Inr RThis, st')
           | (Some e', st') \<Rightarrow> (Inl e', st')))"

definition count_miss :: "'s options \<Rightarrow> 's engine \<Rightarrow> 's engine" where
  "count_miss cfg st =
     (if enableStats cfg then st\<lparr>stats := (stats st)\<lparr>misses := misses (stats st) + 1\<rparr>\<rparr> else st)"

definition count_hit :: "'s options \<Rightarrow> 's engine \<Rightarrow> 's engine" where
  "count_hit cfg st =
     (if enableStats cfg then st\<lparr>stats := (stats st)\<lparr>hits := hits (stats st) + 1\<rparr>\<rparr> else st)"

definition count_set :: "'s options \<Rightarrow> 's engine \<Rightarrow> 's engine" where
  "count_set cfg st =
     (if enableStats cfg then st\<lparr>stats := (stats st)\<lparr>sets := sets (stats st) + 1\<rparr>\<rparr> else st)"

definition count_delete :: "'s options \<Rightarrow> 's engine \<Rightarrow> 's engine" where
  "count_delete cfg st =
     (if enableStats cfg then st\<lparr>stats := (stats st)\<lparr>deletes := deletes (stats st) + 1\<rparr>\<rparr> else st)"

definition count_access :: "'s options \<Rightarrow> 's engine \<Rightarrow> 's engine" where
  "count_access cfg st =
     (if enableStats cfg
      then st\<lparr>stats := (stats st)\<lparr>totalAccesses := totalAccesses (stats st) + 1\<rparr>\<rparr> else st)"

definition count_eviction :: "'s engine \<Rightarrow> 's engine" where
  "count_eviction st = st\<lparr>stats := (stats st)\<lparr>evictions := evictions (stats st) + 1\<rparr>\<rparr>"

text \<open>The eviction counter of the per-tag limit is guarded by \<open>enableStats\<close>.\<close>

definition count_tag_eviction :: "'s options \<Rightarrow> 's engine \<Rightarrow> 's engine" where
  "count_tag_eviction cfg st = (if enableStats cfg then count_eviction st else st)"

text \<open>
  One round of the loop that removes a key from the tag index:
  \<open>keysForTag = tagsMap.get(tag); if (keysForTag) { keysForTag.delete(key);
  if (keysForTag.size === 0) tagsMap.delete(tag) }\<close>.
\<close>

definition untag :: "key \<Rightarrow> (tag \<times> key list) list \<Rightarrow> tag \<Rightarrow> (tag \<times> key list) list" where
  "untag k tm t =
     (case map_of tm t of
        None \<Rightarrow> tm
      | Some ks \<Rightarrow>
          (if removeAll k ks = [] then AList.delete t tm
           else AList.update t (removeAll k ks) tm))"

definition remove_tags :: "key \<Rightarrow> tag list \<Rightarrow> (tag \<times> key list) list \<Rightarrow> (tag \<times> key list) list" where
  "remove_tags k ts tm = (if ts \<noteq> [] then foldl (untag k) tm ts else tm)"

text \<open>\<open>item.expiresAt && Date.now() > item.expiresAt\<close>: \<open>null\<close> and \<open>0\<close> are falsy.\<close>

definition is_expired :: "item \<Rightarrow> int \<Rightarrow> bool" where
  "is_expired it t = (case expiresAt it of None \<Rightarrow> False | Some e \<Rightarrow> e \<noteq> 0 \<and> t > e)"

subsection \<open>delete\<close>

text \<open>
  \<open>delete\<close> has three parts, with an \<open>await\<close> between them. The first finds the metadata
  and calls \<open>storage.get\<close>. The second has the value for the notification (\<open>null\<close> when
  \<open>storage.get\<close> threw: the inner \<open>try\<close> swallows that) and calls \<open>storage.delete\<close>. The
  third, \<open>unlink\<close>, runs when \<open>storage.delete\<close> returned: it removes the key from \<open>cache\<close>,
  \<open>accessOrder\<close>, the tag index and \<open>timers\<close>, counts and notifies; when
  \<open>storage.delete\<close> threw, the \<open>try\<close> block is left before any of that.
\<close>

definition event_value :: "exn + jsval \<Rightarrow> jsval" where
  "event_value r = (case r of Inl _ \<Rightarrow> JNull | Inr v \<Rightarrow> v)"

definition unlink :: "'s options \<Rightarrow> key \<Rightarrow> item \<Rightarrow> jsval \<Rightarrow> 's engine \<Rightarrow> 's engine" where
  "unlink cfg k it v st =
     emit (EvDelete k v)
       (count_delete cfg
          (st\<lparr>cache := AList.delete k (cache st),
              accessOrder := AList.delete k (accessOrder st),
              tagsMap := remove_tags k (tags it) (tagsMap st),
              timers := AList.delete k (timers st)\<rparr>))"

text \<open>The \<open>try\<close> block of an awaited \<open>delete\<close>: the three parts with nothing in between.\<close>

definition delete_body :: "'s options \<Rightarrow> key \<Rightarrow> 's engine \<Rightarrow> (exn + ret) \<times> 's engine" where
  "delete_body cfg k st =
     (case map_of (cache st) k of
        None \<Rightarrow> (Inr RThis, st)
      | Some it \<Rightarrow>
          (let (r1, s1) = ad_get (adapter cfg) (storage st) k;
               (r2, s2) = ad_delete (adapter cfg) s1 k
           in (case r2 of
                 Inl e \<Rightarrow> (Inl e, st\<lparr>storage := s2\<rparr>)
               | Inr _ \<Rightarrow> (Inr RThis, unlink cfg k it (event_value r1) (st\<lparr>storage := s2\<rparr>)))))"

definition delete :: "'s options \<Rightarrow> key \<Rightarrow> 's engine \<Rightarrow> (exn + ret) \<times> 's engine" where
  "delete cfg k st = caught (delete_body cfg k st)"

subsection \<open>Deletions that were started and not awaited\<close>

text \<open>
  \<open>start_delete\<close>: the call \<open>this.delete(k)\<close> whose promise is dropped. It runs the first
  part of \<open>delete\<close> at once; a key without metadata is finished there.
\<close>

definition start_delete :: "'s options \<Rightarrow> key \<Rightarrow> 's engine \<Rightarrow> 's engine" where
  "start_delete cfg k st =
     (case map_of (cache st) k of
        None \<Rightarrow> st
      | Some it \<Rightarrow>
          (let (r1, s1) = ad_get (adapter cfg) (storage st) k
           in st\<lparr>storage := s1, pending := pending st @ [AwaitGet k it r1]\<rparr>))"

text \<open>
  \<open>send\<close>: the second part of a started deletion. \<open>finish\<close>: its last part, with the
  \<open>catch\<close> block; the result is what the deletion's promise rejects with, if it does.
  \<open>advance\<close>: the next part of a deletion whose promise was dropped; what is left of it
  is the result, and a rejection is handled by nobody (\<open>unhandled\<close>).
\<close>

definition send :: "'s options \<Rightarrow> key \<Rightarrow> item \<Rightarrow> exn + jsval \<Rightarrow> 's engine \<Rightarrow> pending \<times> 's engine" where
  "send cfg k it r1 st =
     (let (r2, s2) = ad_delete (adapter cfg) (storage st) k
      in (AwaitDelete k it (event_value r1) r2, st\<lparr>storage := s2\<rparr>))"

definition finish :: "'s options \<Rightarrow> key \<Rightarrow> item \<Rightarrow> jsval \<Rightarrow> exn + bool \<Rightarrow> 's engine \<Rightarrow> exn option \<times> 's engine" where
  "finish cfg k it v r2 st =
     (case r2 of
        Inl e \<Rightarrow> emit_error e st
      | Inr _ \<Rightarrow> (None, unlink cfg k it v st))"

fun advance :: "'s options \<Rightarrow> pending \<Rightarrow> 's engine \<Rightarrow> pending option \<times> 's engine" where
  "advance cfg (AwaitGet k it r1) st =
     (case send cfg k it r1 st of (p, st') \<Rightarrow> (Some p, st'))"
| "advance cfg (AwaitDelete k it v r2) st =
     (case finish cfg k it v r2 st of
        (None, st') \<Rightarrow> (None, st')
      | (Some e, st') \<Rightarrow> (None, st'\<lparr>unhandled := unhandled st' @ [e]\<rparr>))"

text \<open>\<open>resume cfg i\<close>: the \<open>i\<close>-th started deletion goes one part further, if there is one.\<close>

definition resume :: "'s options \<Rightarrow> nat \<Rightarrow> 's engine \<Rightarrow> 's engine" where
  "resume cfg i st =
     (if i < length (pending st)
      then (case advance cfg (pending st ! i) st of
              (Some p, st') \<Rightarrow> st'\<lparr>pending := (pending st)[i := p]\<rparr>
            | (None, st') \<Rightarrow> st'\<lparr>pending := take i (pending st) @ drop (Suc i) (pending st)\<rparr>)
      else st)"

definition resumes :: "'s options \<Rightarrow> nat list \<Rightarrow> 's engine \<Rightarrow> 's engine" where
  "resumes cfg is st = foldl (\<lambda>s i. resume cfg i s) st is"

text \<open>
  The schedule of a \<open>set\<close>: the started deletions that go one part further while \<open>set\<close>
  waits at \<open>await this._evictLRU()\<close>, while it waits at \<open>await this.storage.set(...)\<close>,
  and between the moment its promise settles and the moment the awaiting caller goes on.
  On a backend whose promises are settled when it returns them every \<open>await\<close> takes one
  turn of the microtask queue, and the deletion that \<open>_evictLRU\<close> started, queued before
  \<open>set\<close>, goes one part further in each: that is \<open>prompt\<close>. On a backend with real I/O the
  deletion can be later than that, up to \<open>late\<close>, where it has not moved when the caller
  goes on.
\<close>

record schedule =
  at_evict :: "nat list"
  at_write :: "nat list"
  at_settle :: "nat list"

definition prompt :: schedule where
  "prompt = \<lparr>at_evict = [0], at_write = [0], at_settle = [0]\<rparr>"

definition late :: schedule where
  "late = \<lparr>at_evict = [], at_write = [], at_settle = []\<rparr>"

subsection \<open>get\<close>

definition slide :: "'s options \<Rightarrow> int \<Rightarrow> key \<Rightarrow> jsval \<Rightarrow> item \<Rightarrow> 's engine \<Rightarrow> item \<times> 's engine" where
  "slide cfg t k v it st =
     (case expiresAt it of
        None \<Rightarrow> (it, st)
      | Some e \<Rightarrow>
          (if slidingTTL cfg \<and> e \<noteq> 0
           then (it\<lparr>expiresAt := Some (t + (e - createdAt it))\<rparr>,
                 st\<lparr>timers := AList.update k
                      \<lparr>delay = e - createdAt it, origin = FromGet, payload = v\<rparr> (timers st)\<rparr>)
           else (it, st)))"

text \<open>The confirmed hit: LRU touch, sliding renewal, hit counter, \<open>get\<close> notification.\<close>

definition get_hit :: "'s options \<Rightarrow> (nat \<Rightarrow> int) \<Rightarrow> key \<Rightarrow> jsval \<Rightarrow> item \<Rightarrow> 's engine \<Rightarrow> 's engine" where
  "get_hit cfg now k v it st =
     (let (it', st') =
            slide cfg (now 2) k v (it\<lparr>accessCount := accessCount it + 1\<rparr>)
              (st\<lparr>accessOrder := AList.update k (now 1) (accessOrder st)\<rparr>)
      in emit (EvGet k v) (count_hit cfg (st'\<lparr>cache := AList.update k it' (cache st')\<rparr>)))"

text \<open>The purge of the storage inconsistency branch: \<open>cache\<close> and \<open>accessOrder\<close> only.\<close>

definition purge :: "key \<Rightarrow> 's engine \<Rightarrow> 's engine" where
  "purge k st = st\<lparr>cache := AList.delete k (cache st),
                    accessOrder := AList.delete k (accessOrder st)\<rparr>"

definition get_value :: "'s options \<Rightarrow> (nat \<Rightarrow> int) \<Rightarrow> key \<Rightarrow> item \<Rightarrow> jsval \<Rightarrow> 's engine \<Rightarrow> (exn + jsval) \<times> 's engine" where
  "get_value cfg now k it raw st =
     (case (if raw \<noteq> Undefined then deserialize cfg raw else Inr raw) of
        Inl e \<Rightarrow> (Inl e, st)
      | Inr v \<Rightarrow>
          (if v = Undefined then (Inr Undefined, count_miss cfg (purge k st))
           else (Inr v, get_hit cfg now k v it st)))"

text \<open>
  The \<open>try\<close> block of \<open>get\<close>. On the expired branch \<open>await this.delete(key)\<close> can reject
  (when \<open>delete\<close>'s own \<open>emit('error')\<close> threw); that goes to the \<open>catch\<close> block of \<open>get\<close>
  like any other throw.
\<close>

definition get_body :: "'s options \<Rightarrow> (nat \<Rightarrow> int) \<Rightarrow> key \<Rightarrow> 's engine \<Rightarrow> (exn + jsval) \<times> 's engine" where
  "get_body cfg now k st =
     (case map_of (cache st) k of
        None \<Rightarrow> (Inr Undefined, count_miss cfg st)
      | Some it \<Rightarrow>
          (if is_expired it (now 0)
           then (case delete cfg k st of
                   (Inl e, st1) \<Rightarrow> (Inl e, st1)
                 | (Inr _, st1) \<Rightarrow> (Inr Undefined, count_miss cfg st1))
           else
             (let (r, s1) = ad_get (adapter cfg) (storage st) k
              in (case r of
                    Inl e \<Rightarrow> (Inl e, st\<lparr>storage := s1\<rparr>)
                  | Inr raw \<Rightarrow> get_value cfg now k it raw (st\<lparr>storage := s1\<rparr>)))))"

text \<open>
  \<open>get\<close>: \<open>totalAccesses++\<close>, the \<open>try\<close> block, and the \<open>catch\<close> block
  \<open>this.emit('error', error); misses++; return undefined\<close>, where a throwing \<open>emit\<close> leaves
  before the miss is counted.
\<close>

definition get :: "'s options \<Rightarrow> (nat \<Rightarrow> int) \<Rightarrow> key \<Rightarrow> 's engine \<Rightarrow> (exn + jsval) \<times> 's engine" where
  "get cfg now k st =
     (case get_body cfg now k (count_access cfg st) of
        (Inr v, st') \<Rightarrow> (Inr v, st')
      | (Inl e, st') \<Rightarrow>
          (case emit_error e st' of
             (None, st'') \<Rightarrow> (Inr Undefined, count_miss cfg st'')
           | (Some e', st'') \<Rightarrow> (Inl e', st'')))"

subsection \<open>LRU eviction\<close>

text \<open>
  The scan of \<open>_evictLRU\<close>: \<open>oldestKey = null; oldestTime = Infinity;
  for ([key, time] of accessOrder.entries()) if (time < oldestTime) {...}\<close>. The pair
  carried through the loop is \<open>(oldestKey, oldestTime)\<close>, with \<open>None\<close> for \<open>null\<close> and
  for \<open>Infinity\<close>.
\<close>

definition less_than_oldest :: "int \<Rightarrow> int option \<Rightarrow> bool" where
  "less_than_oldest t ot = (case ot of None \<Rightarrow> True | Some t' \<Rightarrow> t < t')"

fun oldest_scan :: "(key \<times> int) list \<Rightarrow> key option \<times> int option \<Rightarrow> key option \<times> int option" where
  "oldest_scan [] acc = acc"
| "oldest_scan ((k, t) # rest) (ok, ot) =
     oldest_scan rest (if less_than_oldest t ot then (Some k, Some t) else (ok, ot))"

text \<open>
  \<open>_evictLRU\<close> is not \<open>async\<close>. \<open>if (oldestKey)\<close>: \<open>null\<close> and the empty string are falsy,
  and nothing is evicted for them. \<open>this.delete(oldestKey)\<close> is called and not awaited:
  the deletion is started, then the counter (not guarded by \<open>enableStats\<close>) and the
  \<open>evicted\<close> notification follow at once. The notification carries \<open>item?.value\<close>, which
  the metadata object does not have: \<open>undefined\<close>.
\<close>

definition evictLRU :: "'s options \<Rightarrow> 's engine \<Rightarrow> 's engine" where
  "evictLRU cfg st =
     (if accessOrder st = [] then st
      else (case fst (oldest_scan (accessOrder st) (None, None)) of
              None \<Rightarrow> st
            | Some k \<Rightarrow>
                (if k \<noteq> []
                 then emit (EvEvicted k Undefined) (count_eviction (start_delete cfg k st))
                 else st)))"

subsection \<open>set\<close>

text \<open>
  The start of \<open>set\<close> after the condition: the old tag memberships of the key are
  removed, and \<open>_evictLRU\<close> is called when the cache is at capacity and the key is new.
  The flag says whether \<open>await this._evictLRU()\<close> was reached.
\<close>

definition set_check :: "'s options \<Rightarrow> key \<Rightarrow> 's engine \<Rightarrow> bool \<times> 's engine" where
  "set_check cfg k st =
     (let st1 = (case map_of (cache st) k of
                   None \<Rightarrow> st
                 | Some it \<Rightarrow> st\<lparr>tagsMap := remove_tags k (tags it) (tagsMap st)\<rparr>)
      in if of_nat (length (cache st1)) \<ge> maxSize cfg \<and> map_of (cache st1) k = None
         then (True, evictLRU cfg st1) else (False, st1))"

text \<open>
  \<open>set\<close> up to the serialization: the capacity check, \<open>await this._evictLRU()\<close> when
  it was reached (\<open>_evictLRU\<close> returns no promise, so the \<open>await\<close> is one turn of the
  queue), and the clearing of the key's timer.
\<close>

definition set_prepare :: "'s options \<Rightarrow> schedule \<Rightarrow> key \<Rightarrow> 's engine \<Rightarrow> 's engine" where
  "set_prepare cfg sch k st =
     (let (awaited, st1) = set_check cfg k st;
          st2 = (if awaited then resumes cfg (at_evict sch) st1 else st1)
      in st2\<lparr>timers := AList.delete k (timers st2)\<rparr>)"

text \<open>
  How far \<open>set\<close> got when it first waits for the backend: it returned \<open>false\<close> on the
  condition, it threw (the condition or \<open>serialize\<close>), or it called \<open>storage.set\<close>, with
  the outcome given, and waits for it.
\<close>

datatype waiting = Skipped | Thrown exn | Written "exn + bool"

definition set_until_write ::
  "'s options \<Rightarrow> schedule \<Rightarrow> key \<Rightarrow> jsval \<Rightarrow> (key \<Rightarrow> jsval \<Rightarrow> exn + bool) option \<Rightarrow> 's engine
     \<Rightarrow> waiting \<times> 's engine" where
  "set_until_write cfg sch k v condition st =
     (case (case condition of None \<Rightarrow> Inr True | Some c \<Rightarrow> c k v) of
        Inl e \<Rightarrow> (Thrown e, st)
      | Inr b \<Rightarrow>
          (if \<not> b then (Skipped, st)
           else
             (let st3 = set_prepare cfg sch k st
              in (case serialize cfg v of
                    Inl e \<Rightarrow> (Thrown e, st3)
                  | Inr sv \<Rightarrow>
                      (let (r, s1) = ad_set (adapter cfg) (storage st3) k sv
                       in (Written r, st3\<lparr>storage := s1\<rparr>))))))"

text \<open>
  The scan for the least recently used member of a tag:
  \<open>item && accessOrder.has(taggedKey) && accessOrder.get(taggedKey) < oldestTaggedTime\<close>.
\<close>

fun tagged_scan ::
  "(key \<times> item) list \<Rightarrow> (key \<times> int) list \<Rightarrow> key list \<Rightarrow> key option \<times> int option
     \<Rightarrow> key option \<times> int option" where
  "tagged_scan c ao [] acc = acc"
| "tagged_scan c ao (k # ks) (ok, ot) =
     tagged_scan c ao ks
       (case (map_of c k, map_of ao k) of
          (Some it, Some t) \<Rightarrow> (if less_than_oldest t ot then (Some k, Some t) else (ok, ot))
        | _ \<Rightarrow> (ok, ot))"

text \<open>\<open>Set.add\<close>: a member keeps its place, a new member goes last.\<close>

definition set_add :: "key \<Rightarrow> key list \<Rightarrow> key list" where
  "set_add k ks = (if k \<in> set ks then ks else ks @ [k])"

definition add_tag :: "key \<Rightarrow> tag \<Rightarrow> (tag \<times> key list) list \<Rightarrow> (tag \<times> key list) list" where
  "add_tag k t tm =
     (case map_of tm t of
        None \<Rightarrow> AList.update t [k] tm
      | Some ks \<Rightarrow> AList.update t (set_add k ks) tm)"

text \<open>\<open>maxEntries && tagsMap.get(tag).size > maxEntries\<close>: \<open>undefined\<close> and \<open>0\<close> are falsy.\<close>

definition over_tag_limit :: "'s options \<Rightarrow> tag \<Rightarrow> (tag \<times> key list) list \<Rightarrow> bool" where
  "over_tag_limit cfg t tm =
     (case maxEntriesPerTag cfg t of
        None \<Rightarrow> False
      | Some m \<Rightarrow> m \<noteq> 0 \<and>
          int (length (case map_of tm t of None \<Rightarrow> [] | Some ks \<Rightarrow> ks)) > m)"

text \<open>
  The eviction of the per-tag limit awaits its \<open>delete\<close>; when that rejects, the counter
  and the \<open>evicted\<close> notification are skipped and \<open>set\<close> goes to its \<open>catch\<close> block.
\<close>

definition evict_tagged :: "'s options \<Rightarrow> tag \<Rightarrow> 's engine \<Rightarrow> exn option \<times> 's engine" where
  "evict_tagged cfg t st =
     (case fst (tagged_scan (cache st) (accessOrder st)
                  (case map_of (tagsMap st) t of None \<Rightarrow> [] | Some ks \<Rightarrow> ks) (None, None)) of
        None \<Rightarrow> (None, st)
      | Some victim \<Rightarrow>
          (if victim \<noteq> []
           then (case delete cfg victim st of
                   (Inl e, st1) \<Rightarrow> (Some e, st1)
                 | (Inr _, st1) \<Rightarrow>
                     (None, emit (EvEvicted victim JNull) (count_tag_eviction cfg st1)))
           else (None, st)))"

text \<open>One round of \<open>for (const tag of cacheItem.tags)\<close>, and the loop.\<close>

definition tag_step :: "'s options \<Rightarrow> key \<Rightarrow> tag \<Rightarrow> 's engine \<Rightarrow> exn option \<times> 's engine" where
  "tag_step cfg k t st =
     (let st1 = st\<lparr>tagsMap := add_tag k t (tagsMap st)\<rparr>
      in if over_tag_limit cfg t (tagsMap st1) then evict_tagged cfg t st1 else (None, st1))"

fun tag_loop :: "'s options \<Rightarrow> key \<Rightarrow> tag list \<Rightarrow> 's engine \<Rightarrow> exn option \<times> 's engine" where
  "tag_loop cfg k [] st = (None, st)"
| "tag_loop cfg k (t # ts) st =
     (case tag_step cfg k t st of
        (Some e, st1) \<Rightarrow> (Some e, st1)
      | (None, st1) \<Rightarrow> tag_loop cfg k ts st1)"

definition resolve_ttl :: "'s options \<Rightarrow> int option \<Rightarrow> int" where
  "resolve_ttl cfg ttl = (case ttl of Some t \<Rightarrow> t | None \<Rightarrow> defaultTTL cfg)"

text \<open>
  The part of \<open>set\<close> after the storage write succeeded: metadata, access order, tag
  index with the per-tag limits, timer, counter, notification.
\<close>

definition new_item :: "(nat \<Rightarrow> int) \<Rightarrow> int \<Rightarrow> tag list \<Rightarrow> item" where
  "new_item now eff ts =
     \<lparr>createdAt = now 1,
      expiresAt = (if eff > 0 then Some (now 0 + eff) else None),
      accessCount = 0, tags = ts\<rparr>"

definition insert_entry :: "(nat \<Rightarrow> int) \<Rightarrow> key \<Rightarrow> int \<Rightarrow> tag list \<Rightarrow> 's engine \<Rightarrow> 's engine" where
  "insert_entry now k eff ts st =
     st\<lparr>cache := AList.update k (new_item now eff ts) (cache st),
        accessOrder := AList.update k (now 2) (accessOrder st)\<rparr>"

definition arm_timer :: "key \<Rightarrow> jsval \<Rightarrow> int \<Rightarrow> 's engine \<Rightarrow> 's engine" where
  "arm_timer k v eff st =
     (if eff > 0
      then st\<lparr>timers := AList.update k \<lparr>delay = eff, origin = FromSet, payload = v\<rparr> (timers st)\<rparr>
      else st)"

definition set_store :: "'s options \<Rightarrow> (nat \<Rightarrow> int) \<Rightarrow> key \<Rightarrow> jsval \<Rightarrow> int \<Rightarrow> tag list \<Rightarrow> 's engine \<Rightarrow> exn option \<times> 's engine" where
  "set_store cfg now k v eff ts st =
     (case tag_loop cfg k ts (insert_entry now k eff ts st) of
        (Some e, st1) \<Rightarrow> (Some e, st1)
      | (None, st1) \<Rightarrow> (None, emit (EvSet k v) (count_set cfg (arm_timer k v eff st1))))"

text \<open>\<open>set\<close> from the moment \<open>storage.set\<close> settled with the outcome \<open>r\<close>.\<close>

definition set_after_write ::
  "'s options \<Rightarrow> (nat \<Rightarrow> int) \<Rightarrow> key \<Rightarrow> jsval \<Rightarrow> int option \<Rightarrow> tag list \<Rightarrow> exn + bool \<Rightarrow> 's engine
     \<Rightarrow> (exn + ret) \<times> 's engine" where
  "set_after_write cfg now k v ttl ts r st =
     (case r of
        Inl e \<Rightarrow> (Inl e, st)
      | Inr _ \<Rightarrow>
          (case set_store cfg now k v (resolve_ttl cfg ttl) ts st of
             (Some e, st1) \<Rightarrow> (Inl e, st1)
           | (None, st1) \<Rightarrow> (Inr RThis, st1)))"

text \<open>The \<open>try\<close> block of \<open>set\<close>, and \<open>set\<close>.\<close>

definition set_body ::
  "'s options \<Rightarrow> schedule \<Rightarrow> (nat \<Rightarrow> int) \<Rightarrow> key \<Rightarrow> jsval \<Rightarrow> int option \<Rightarrow> tag list
     \<Rightarrow> (key \<Rightarrow> jsval \<Rightarrow> exn + bool) option \<Rightarrow> 's engine \<Rightarrow> (exn + ret) \<times> 's engine" where
  "set_body cfg sch now k v ttl ts condition st =
     (case set_until_write cfg sch k v condition st of
        (Skipped, st1) \<Rightarrow> (Inr RFalse, st1)
      | (Thrown e, st1) \<Rightarrow> (Inl e, st1)
      | (Written r, st1) \<Rightarrow>
          set_after_write cfg now k v ttl ts r (resumes cfg (at_write sch) st1))"

definition set_op ::
  "'s options \<Rightarrow> schedule \<Rightarrow> (nat \<Rightarrow> int) \<Rightarrow> key \<Rightarrow> jsval \<Rightarrow> int option \<Rightarrow> tag list
     \<Rightarrow> (key \<Rightarrow> jsval \<Rightarrow> exn + bool) option \<Rightarrow> 's engine \<Rightarrow> (exn + ret) \<times> 's engine" where
  "set_op cfg sch now k v ttl ts condition st =
     caught (set_body cfg sch now k v ttl ts condition st)"

text \<open>
  \<open>await cache.set(...)\<close>: the engine as the awaiting caller finds it, one turn of the
  queue after the promise of \<open>set\<close> settled.
\<close>

definition awaited_set ::
  "'s options \<Rightarrow> schedule \<Rightarrow> (nat \<Rightarrow> int) \<Rightarrow> key \<Rightarrow> jsval \<Rightarrow> int option \<Rightarrow> tag list
     \<Rightarrow> (key \<Rightarrow> jsval \<Rightarrow> exn + bool) option \<Rightarrow> 's engine \<Rightarrow> (exn + ret) \<times> 's engine" where
  "awaited_set cfg sch now k v ttl ts condition st =
     (case set_op cfg sch now k v ttl ts condition st of
        (r, st') \<Rightarrow> (r, resumes cfg (at_settle sch) st'))"

subsection \<open>has, clear, getOrSet, deleteByTag, touch\<close>

text \<open>
  \<open>has\<close>: the \<open>await this.delete(key)\<close> of the expired branch is outside the \<open>try\<close>, so a
  rejection of \<open>delete\<close> is a rejection of \<open>has\<close>; a throw of \<open>storage.has\<close> gives \<open>false\<close>
  without a notification.
\<close>

definition has :: "'s options \<Rightarrow> (nat \<Rightarrow> int) \<Rightarrow> key \<Rightarrow> 's engine \<Rightarrow> (exn + bool) \<times> 's engine" where
  "has cfg now k st =
     (case map_of (cache st) k of
        None \<Rightarrow> (Inr False, st)
      | Some it \<Rightarrow>
          (if is_expired it (now 0)
           then (case delete cfg k st of
                   (Inl e, st1) \<Rightarrow> (Inl e, st1)
                 | (Inr _, st1) \<Rightarrow> (Inr False, st1))
           else
             (let (r, s1) = ad_has (adapter cfg) (storage st) k
              in (case r of
                    Inl e \<Rightarrow> (Inr False, st\<lparr>storage := s1\<rparr>)
                  | Inr b \<Rightarrow>
                      (if \<not> b then (Inr False, purge k (st\<lparr>storage := s1\<rparr>))
                       else (Inr True, st\<lparr>storage := s1\<rparr>))))))"

text \<open>\<open>clear\<close> empties \<open>cache\<close>, \<open>timers\<close> and \<open>accessOrder\<close>; it does not touch \<open>tagsMap\<close>.\<close>

definition clear :: "'s options \<Rightarrow> 's engine \<Rightarrow> (exn + ret) \<times> 's engine" where
  "clear cfg st =
     caught
       (let (r, s1) = ad_clear (adapter cfg) (storage st)
        in (case r of
              Inl e \<Rightarrow> (Inl e, st\<lparr>storage := s1\<rparr>)
            | Inr _ \<Rightarrow>
                (Inr RThis,
                 emit EvClear (st\<lparr>storage := s1, cache := [], timers := [], accessOrder := []\<rparr>))))"

text \<open>
  \<open>getOrSet\<close>: the loader's outcome (what \<open>await fn(loaderOptions)\<close> returns or throws) is
  the argument \<open>loaded\<close>. The \<open>catch\<close> block is \<open>this.emit('error', error); throw error\<close>:
  whatever is thrown inside is thrown again. It awaits \<open>set\<close> as a caller does.
\<close>

definition getOrSet ::
  "'s options \<Rightarrow> schedule \<Rightarrow> (nat \<Rightarrow> int) \<Rightarrow> (nat \<Rightarrow> int) \<Rightarrow> key \<Rightarrow> (exn + jsval) \<Rightarrow> int option
     \<Rightarrow> 's engine \<Rightarrow> (exn + jsval) \<times> 's engine" where
  "getOrSet cfg sch now_get now_set k loaded ttl st =
     (case get cfg now_get k st of
        (Inl e, st1) \<Rightarrow> (Inl e, snd (emit_error e st1))
      | (Inr v, st1) \<Rightarrow>
          (if v = Undefined
           then (case loaded of
                   Inl e \<Rightarrow> (Inl e, snd (emit_error e st1))
                 | Inr v' \<Rightarrow>
                     (case awaited_set cfg sch now_set k v' ttl [] None st1 of
                        (Inl e, st2) \<Rightarrow> (Inl e, snd (emit_error e st2))
                      | (Inr _, st2) \<Rightarrow> (Inr v', st2)))
           else (Inr v, st1)))"

text \<open>
  \<open>deleteMultiple\<close>: \<open>Promise.all(keys.map(key => this.delete(key)))\<close>. Every deletion is
  started in turn (first parts), then every one makes its storage call, then every one
  finishes; the promise rejects with the first rejection.
\<close>

fun start_all :: "'s options \<Rightarrow> key list \<Rightarrow> 's engine \<Rightarrow> pending list \<times> 's engine" where
  "start_all cfg [] st = ([], st)"
| "start_all cfg (k # ks) st =
     (case map_of (cache st) k of
        None \<Rightarrow> start_all cfg ks st
      | Some it \<Rightarrow>
          (let (r1, s1) = ad_get (adapter cfg) (storage st) k;
               (ps, st') = start_all cfg ks (st\<lparr>storage := s1\<rparr>)
           in (AwaitGet k it r1 # ps, st')))"

fun send_all :: "'s options \<Rightarrow> pending list \<Rightarrow> 's engine \<Rightarrow> pending list \<times> 's engine" where
  "send_all cfg [] st = ([], st)"
| "send_all cfg (AwaitGet k it r1 # ps) st =
     (let (p, st1) = send cfg k it r1 st;
          (ps', st2) = send_all cfg ps st1
      in (p # ps', st2))"
| "send_all cfg (p # ps) st =
     (let (ps', st2) = send_all cfg ps st in (p # ps', st2))"

fun finish_all :: "'s options \<Rightarrow> pending list \<Rightarrow> 's engine \<Rightarrow> exn list \<times> 's engine" where
  "finish_all cfg [] st = ([], st)"
| "finish_all cfg (AwaitDelete k it v r2 # ps) st =
     (let (e, st1) = finish cfg k it v r2 st;
          (es, st2) = finish_all cfg ps st1
      in ((case e of None \<Rightarrow> es | Some x \<Rightarrow> x # es), st2))"
| "finish_all cfg (p # ps) st = finish_all cfg ps st"

definition deleteMultiple :: "'s options \<Rightarrow> key list \<Rightarrow> 's engine \<Rightarrow> (exn + ret) \<times> 's engine" where
  "deleteMultiple cfg ks st =
     (let (ps, st1) = start_all cfg ks st;
          (ps', st2) = send_all cfg ps st1;
          (es, st3) = finish_all cfg ps' st2
      in (case es of [] \<Rightarrow> (Inr RThis, st3) | e # _ \<Rightarrow> (Inl e, st3)))"

definition deleteByTag :: "'s options \<Rightarrow> tag \<Rightarrow> 's engine \<Rightarrow> (exn + bool) \<times> 's engine" where
  "deleteByTag cfg t st =
     (case map_of (tagsMap st) t of
        None \<Rightarrow> (Inr False, st)
      | Some ks \<Rightarrow>
          (case deleteMultiple cfg ks st of
             (Inl e, st') \<Rightarrow> (Inl e, st')
           | (Inr _, st') \<Rightarrow> (Inr (ks \<noteq> []), st')))"

definition touch :: "(nat \<Rightarrow> int) \<Rightarrow> key \<Rightarrow> int \<Rightarrow> 's engine \<Rightarrow> ret \<times> 's engine" where
  "touch now k ttl st =
     (case map_of (cache st) k of
        None \<Rightarrow> (RFalse, st)
      | Some it \<Rightarrow>
          (RThis,
           st\<lparr>cache := AList.update k
                 (it\<lparr>expiresAt := (if ttl > 0 then Some (now 0 + ttl) else None)\<rparr>) (cache st),
              timers := (if ttl > 0
                         then AList.update k \<lparr>delay = ttl, origin = FromTouch, payload = Undefined\<rparr>
                                (AList.delete k (timers st))
                         else AList.delete k (timers st))\<rparr>))"

subsection \<open>Statistics\<close>

text \<open>
  \<open>hitRate: this.stats.hits / (this.stats.hits + this.stats.misses) || 0\<close>. The counters
  are natural numbers; the quotient is taken exactly (a rational), \<open>0 / 0\<close> is \<open>NaN\<close>, and
  \<open>x || 0\<close> replaces the falsy numbers \<open>NaN\<close> and \<open>0\<close> by \<open>0\<close>.
\<close>

datatype jsnum = NaN | PosInf | Fin rat

definition js_div :: "nat \<Rightarrow> nat \<Rightarrow> jsnum" where
  "js_div a b = (if b = 0 then (if a = 0 then NaN else PosInf) else Fin (of_nat a / of_nat b))"

definition or_zero :: "jsnum \<Rightarrow> jsnum" where
  "or_zero x = (case x of NaN \<Rightarrow> Fin 0 | PosInf \<Rightarrow> PosInf | Fin q \<Rightarrow> Fin q)"

record snapshot = statistics +
  cache_size :: nat
  hitRate :: jsnum

definition getStats :: "'s engine \<Rightarrow> snapshot" where
  "getStats st =
     \<lparr> hits = hits (stats st), misses = misses (stats st), sets = sets (stats st),
       deletes = deletes (stats st), evictions = evictions (stats st),
       totalAccesses = totalAccesses (stats st), totalExpired = totalExpired (stats st),
       cache_size = length (cache st),
       hitRate = or_zero (js_div (hits (stats st)) (hits (stats st) + misses (stats st))) \<rparr>"

definition resetStats :: "'s engine \<Rightarrow> 's engine" where
  "resetStats st = st\<lparr>stats := no_stats\<rparr>"

subsection \<open>Sequences of calls\<close>

text \<open>
  A client of the engine makes calls one after the other, each awaited before the next.
  \<open>perform\<close> is the engine after a call. \<open>CallResume i\<close> is a turn of the event loop
  between two calls in which the \<open>i\<close>-th started deletion goes one part further;
  \<open>CallListen b\<close> registers (\<open>on\<close>) or removes (\<open>removeAllListeners\<close>) the listeners for
  \<open>error\<close>. \<open>looked_up\<close> is the outcome of the \<open>get\<close> that a call makes (directly or inside
  \<open>getOrSet\<close>); \<open>reads_hit\<close> and \<open>reads_miss\<close> say whether it returned a value or
  \<open>undefined\<close>: a \<open>get\<close> that rejects is neither. \<open>resetStats\<close> is not among the calls.
\<close>

datatype call =
    CallSet schedule "nat \<Rightarrow> int" key jsval "int option" "tag list"
      "(key \<Rightarrow> jsval \<Rightarrow> exn + bool) option"
  | CallGet "nat \<Rightarrow> int" key
  | CallHas "nat \<Rightarrow> int" key
  | CallDelete key
  | CallClear
  | CallGetOrSet schedule "nat \<Rightarrow> int" "nat \<Rightarrow> int" key "exn + jsval" "int option"
  | CallDeleteByTag tag
  | CallTouch "nat \<Rightarrow> int" key int
  | CallResume nat
  | CallListen bool

fun perform :: "'s options \<Rightarrow> call \<Rightarrow> 's engine \<Rightarrow> 's engine" where
  "perform cfg (CallSet sch now k v ttl ts c) st = snd (awaited_set cfg sch now k v ttl ts c st)"
| "perform cfg (CallGet now k) st = snd (get cfg now k st)"
| "perform cfg (CallHas now k) st = snd (has cfg now k st)"
| "perform cfg (CallDelete k) st = snd (delete cfg k st)"
| "perform cfg CallClear st = snd (clear cfg st)"
| "perform cfg (CallGetOrSet sch now_get now_set k loaded ttl) st =
     snd (getOrSet cfg sch now_get now_set k loaded ttl st)"
| "perform cfg (CallDeleteByTag t) st = snd (deleteByTag cfg t st)"
| "perform cfg (CallTouch now k ttl) st = snd (touch now k ttl st)"
| "perform cfg (CallResume i) st = resume cfg i st"
| "perform cfg (CallListen b) st = st\<lparr>errorListener := b\<rparr>"

fun looked_up :: "'s options \<Rightarrow> call \<Rightarrow> 's engine \<Rightarrow> (exn + jsval) option" where
  "looked_up cfg (CallGet now k) st = Some (fst (get cfg now k st))"
| "looked_up cfg (CallGetOrSet sch now_get now_set k loaded ttl) st =
     Some (fst (get cfg now_get k st))"
| "looked_up cfg _ st = None"

definition reads_hit :: "'s options \<Rightarrow> call \<Rightarrow> 's engine \<Rightarrow> bool" where
  "reads_hit cfg c st =
     (case looked_up cfg c st of Some (Inr v) \<Rightarrow> v \<noteq> Undefined | _ \<Rightarrow> False)"

definition reads_miss :: "'s options \<Rightarrow> call \<Rightarrow> 's engine \<Rightarrow> bool" where
  "reads_miss cfg c st =
     (case looked_up cfg c st of Some (Inr v) \<Rightarrow> v = Undefined | _ \<Rightarrow> False)"

fun run :: "'s options \<Rightarrow> call list \<Rightarrow> 's engine \<Rightarrow> 's engine" where
  "run cfg [] st = st"
| "run cfg (c # cs) st = run cfg cs (perform cfg c st)"

fun hits_of :: "'s options \<Rightarrow> call list \<Rightarrow> 's engine \<Rightarrow> nat" where
  "hits_of cfg [] st = 0"
| "hits_of cfg (c # cs) st =
     (if reads_hit cfg c st then 1 else 0) + hits_of cfg cs (perform cfg c st)"

fun misses_of :: "'s options \<Rightarrow> call list \<Rightarrow> 's engine \<Rightarrow> nat" where
  "misses_of cfg [] st = 0"
| "misses_of cfg (c # cs) st =
     (if reads_miss cfg c st then 1 else 0) + misses_of cfg cs (perform cfg c st)"

subsection \<open>The tag index invariant, and engines used as examples\<close>

text \<open>
  \<open>tag_index_ok\<close>: every bucket of \<open>tagsMap\<close> is non-empty and holds only keys whose
  metadata carries the tag, and every tag of every metadata entry has the key in its
  bucket.
\<close>

definition tag_index_ok :: "'s engine \<Rightarrow> bool" where
  "tag_index_ok st \<longleftrightarrow>
     list_all (\<lambda>(t, ks). ks \<noteq> [] \<and>
        list_all (\<lambda>k. case map_of (cache st) k of None \<Rightarrow> False | Some it \<Rightarrow> t \<in> set (tags it)) ks)
       (tagsMap st) \<and>
     list_all (\<lambda>(k, it).
        list_all (\<lambda>t. case map_of (tagsMap st) t of None \<Rightarrow> False | Some ks \<Rightarrow> k \<in> set ks)
          (tags it))
       (cache st)"

text \<open>
  \<open>new EasyCache(raw)\<close> on the in-memory adapter, with the pair
  \<open>serialize: v => v, deserialize: v => v\<close> and no per-tag limit; \<open>no_raw\<close> is \<open>{}\<close>.
  \<open>clock_at t\<close> is a clock that reads \<open>t\<close> during the whole call.
\<close>

definition memory_options :: "raw_options \<Rightarrow> (key \<times> jsval) list options" where
  "memory_options raw = constructor raw Inr Inr (\<lambda>_. None) MemoryAdapter"

definition no_raw :: raw_options where
  "no_raw = \<lparr>raw_maxSize = None, raw_defaultTTL = None, raw_slidingTTL = None,
             raw_enableStats = None\<rparr>"

definition clock_at :: "int \<Rightarrow> nat \<Rightarrow> int" where
  "clock_at t = (\<lambda>_. t)"

text \<open>An in-memory backend whose \<open>get\<close> throws; the other methods work.\<close>

definition unreadable_options :: "(key \<times> jsval) list options" where
  "unreadable_options =
     constructor no_raw Inr Inr (\<lambda>_. None)
       (MemoryAdapter\<lparr>ad_get := (\<lambda>s k. (Inl (Error ''read failed''), s))\<rparr>)"

text \<open>An in-memory backend that is offline: every method throws.\<close>

definition offline_options :: "(key \<times> jsval) list options" where
  "offline_options =
     constructor no_raw Inr Inr (\<lambda>_. None)
       \<lparr> ad_get = (\<lambda>s k. (Inl (Error ''offline''), s)),
         ad_set = (\<lambda>s k v. (Inl (Error ''offline''), s)),
         ad_delete = (\<lambda>s k. (Inl (Error ''offline''), s)),
         ad_has = (\<lambda>s k. (Inl (Error ''offline''), s)),
         ad_clear = (\<lambda>s. (Inl (Error ''offline''), s)) \<rparr>"


definition full_example :: "(key \<times> jsval) list engine" where
  "full_example =
     run (memory_options (no_raw\<lparr>raw_maxSize := Some 2\<rparr>))
       [CallSet prompt (clock_at 1) ''a'' (JNum 1) None [] None,
        CallSet prompt (clock_at 2) ''b'' (JNum 2) None [] None]
       (new_engine [])"

definition stats_example :: "call list" where
  "stats_example =
     [CallSet prompt (clock_at 1) ''a'' (JNum 1) None [] None,
      CallGet (clock_at 2) ''a'',
      CallGet (clock_at 3) ''b'',
      CallGet (clock_at 4) ''a'',
      CallDelete ''a'',
      CallGet (clock_at 5) ''a'']"

text \<open>
  \<open>examples/basic.js\<close>, lines 158 to 168: \<open>new EasyCache({maxSize: 3})\<close> and four calls
  of \<open>set\<close> that are not awaited. Each call runs to its \<open>await this.storage.set(...)\<close>
  before the next one starts; they continue, in the same order, when the script has
  ended.
\<close>

definition unawaited_example :: "(key \<times> jsval) list engine" where
  "unawaited_example =
     (let cfg = memory_options (no_raw\<lparr>raw_maxSize := Some 3\<rparr>);
          st1 = snd (set_until_write cfg prompt ''item1'' (JStr ''value1'') None (new_engine []));
          st2 = snd (set_until_write cfg prompt ''item2'' (JStr ''value2'') None st1);
          st3 = snd (set_until_write cfg prompt ''item3'' (JStr ''value3'') None st2);
          st4 = snd (set_until_write cfg prompt ''item4'' (JStr ''value4'') None st3);
          st5 = snd (set_after_write cfg (clock_at 1) ''item1'' (JStr ''value1'') None [] (Inr True) st4);
          st6 = snd (set_after_write cfg (clock_at 1) ''item2'' (JStr ''value2'') None [] (Inr True) st5);
          st7 = snd (set_after_write cfg (clock_at 1) ''item3'' (JStr ''value3'') None [] (Inr True) st6)
      in snd (set_after_write cfg (clock_at 1) ''item4'' (JStr ''value4'') None [] (Inr True) st7))"

subsection \<open>Keeping a part of the entries\<close>

text \<open>
  \<open>part_of st' st\<close>: the engine \<open>st'\<close> holds the entries of \<open>st\<close> except those of some set
  of keys, removed from \<open>cache\<close> and \<open>accessOrder\<close> alike, and the timers of \<open>st\<close> except
  those of some keys; the hit and miss counters and the listener for \<open>error\<close> are those of
  \<open>st\<close> and the eviction counter is not smaller. Deleting and evicting relate the engine
  after to the engine before in this way.
\<close>

definition part_of :: "'s engine \<Rightarrow> 's engine \<Rightarrow> bool" where
  "part_of st' st \<longleftrightarrow>
     (\<exists>K. cache st' = filter (\<lambda>p. fst p \<notin> K) (cache st)
        \<and> accessOrder st' = filter (\<lambda>p. fst p \<notin> K) (accessOrder st))
     \<and> (\<exists>T. timers st' = filter (\<lambda>p. fst p \<notin> T) (timers st))
     \<and> hits (stats st') = hits (stats st) \<and> misses (stats st') = misses (stats st)
     \<and> evictions (stats st') \<ge> evictions (stats st)
     \<and> errorListener st' = errorListener st"

subsection \<open>The capacity invariant\<close>

text \<open>
  \<open>capacity\<close>: the number of entries that the test \<open>cache.size >= maxSize\<close> lets in.
  \<open>entries_kept\<close>: \<open>accessOrder\<close> and \<open>cache\<close> hold the same keys, no key is the empty
  string (which \<open>if (oldestKey)\<close> takes for no victim), the keys of \<open>cache\<close> are distinct
  and there are at most \<open>capacity\<close> of them. \<open>well_kept\<close>: moreover no started deletion
  is unfinished. \<open>call_key\<close> is
  the key a call writes, if it writes one; \<open>call_schedule\<close> is its schedule, if it has
  one. \<open>never_throws_on_delete\<close>: the backend's \<open>delete\<close> always returns.
  \<open>at_insertion\<close>: the engine when \<open>set\<close> goes on after its storage write.
\<close>

definition capacity :: "'s options \<Rightarrow> int" where
  "capacity cfg = max \<lceil>maxSize cfg\<rceil> 1"

definition entries_kept :: "'s options \<Rightarrow> 's engine \<Rightarrow> bool" where
  "entries_kept cfg st \<longleftrightarrow>
     set (map fst (accessOrder st)) = set (map fst (cache st))
     \<and> [] \<notin> set (map fst (cache st))
     \<and> distinct (map fst (cache st))
     \<and> int (length (cache st)) \<le> capacity cfg"

definition well_kept :: "'s options \<Rightarrow> 's engine \<Rightarrow> bool" where
  "well_kept cfg st \<longleftrightarrow> entries_kept cfg st \<and> pending st = []"





text \<open>\<open>store_part st' st\<close>: the in-memory backend of \<open>st'\<close> holds a part of the keys of \<open>st\<close>.\<close>

definition store_part :: "(key \<times> jsval) list engine \<Rightarrow> (key \<times> jsval) list engine \<Rightarrow> bool" where
  "store_part st' st \<longleftrightarrow> (\<exists>K. storage st' = filter (\<lambda>p. fst p \<notin> K) (storage st))"

text \<open>\<open>passes c k v\<close>: the condition of \<open>set\<close> is absent or evaluates to true.\<close>

definition passes :: "(key \<Rightarrow> jsval \<Rightarrow> exn + bool) option \<Rightarrow> key \<Rightarrow> jsval \<Rightarrow> bool" where
  "passes c k v = (case c of None \<Rightarrow> True | Some f \<Rightarrow> f k v = Inr True)"

section \<open>Properties\<close>

lemmas counter_defs = emit_def count_miss_def count_hit_def count_set_def count_delete_def
  count_access_def count_eviction_def count_tag_eviction_def

subsection \<open>Field projections\<close>

lemma clock_at_apply [simp]: "clock_at t i = t"
  by (simp add: clock_at_def)

lemma emit_fields [simp]:
  "cache (emit ev st) = cache st" "timers (emit ev st) = timers st"
  "accessOrder (emit ev st) = accessOrder st" "tagsMap (emit ev st) = tagsMap st"
  "stats (emit ev st) = stats st" "storage (emit ev st) = storage st"
  "errorListener (emit ev st) = errorListener st" "pending (emit ev st) = pending st"
  "unhandled (emit ev st) = unhandled st"
  "emitted (emit ev st) = emitted st @ [ev]"
  by (simp_all add: emit_def)

lemma emit_error_fields [simp]:
  "fst (emit_error e st) = (if errorListener st then None else Some e)"
  "snd (emit_error e st) = emit (EvError e) st"
  by (simp_all add: emit_error_def)

lemma count_eviction_fields [simp]:
  "cache (count_eviction st) = cache st" "timers (count_eviction st) = timers st"
  "accessOrder (count_eviction st) = accessOrder st" "tagsMap (count_eviction st) = tagsMap st"
  "storage (count_eviction st) = storage st" "emitted (count_eviction st) = emitted st"
  "errorListener (count_eviction st) = errorListener st"
  "pending (count_eviction st) = pending st" "unhandled (count_eviction st) = unhandled st"
  "evictions (stats (count_eviction st)) = evictions (stats st) + 1"
  "hits (stats (count_eviction st)) = hits (stats st)"
  "misses (stats (count_eviction st)) = misses (stats st)"
  by (simp_all add: count_eviction_def)

lemma count_set_fields [simp]:
  "cache (count_set cfg st) = cache st" "timers (count_set cfg st) = timers st"
  "accessOrder (count_set cfg st) = accessOrder st" "tagsMap (count_set cfg st) = tagsMap st"
  "storage (count_set cfg st) = storage st" "emitted (count_set cfg st) = emitted st"
  "errorListener (count_set cfg st) = errorListener st"
  "pending (count_set cfg st) = pending st" "unhandled (count_set cfg st) = unhandled st"
  "evictions (stats (count_set cfg st)) = evictions (stats st)"
  "hits (stats (count_set cfg st)) = hits (stats st)"
  "misses (stats (count_set cfg st)) = misses (stats st)"
  by (simp_all add: count_set_def)

lemma count_delete_fields [simp]:
  "cache (count_delete cfg st) = cache st" "timers (count_delete cfg st) = timers st"
  "accessOrder (count_delete cfg st) = accessOrder st" "tagsMap (count_delete cfg st) = tagsMap st"
  "storage (count_delete cfg st) = storage st" "emitted (count_delete cfg st) = emitted st"
  "errorListener (count_delete cfg st) = errorListener st"
  "pending (count_delete cfg st) = pending st" "unhandled (count_delete cfg st) = unhandled st"
  "evictions (stats (count_delete cfg st)) = evictions (stats st)"
  "hits (stats (count_delete cfg st)) = hits (stats st)"
  "misses (stats (count_delete cfg st)) = misses (stats st)"
  by (simp_all add: count_delete_def)

lemma count_hit_fields [simp]:
  "cache (count_hit cfg st) = cache st" "timers (count_hit cfg st) = timers st"
  "accessOrder (count_hit cfg st) = accessOrder st" "tagsMap (count_hit cfg st) = tagsMap st"
  "storage (count_hit cfg st) = storage st" "emitted (count_hit cfg st) = emitted st"
  "errorListener (count_hit cfg st) = errorListener st"
  "pending (count_hit cfg st) = pending st" "unhandled (count_hit cfg st) = unhandled st"
  "misses (stats (count_hit cfg st)) = misses (stats st)"
  "hits (stats (count_hit cfg st)) = hits (stats st) + (if enableStats cfg then 1 else 0)"
  by (simp_all add: count_hit_def)

lemma count_miss_fields [simp]:
  "cache (count_miss cfg st) = cache st" "timers (count_miss cfg st) = timers st"
  "accessOrder (count_miss cfg st) = accessOrder st" "tagsMap (count_miss cfg st) = tagsMap st"
  "storage (count_miss cfg st) = storage st" "emitted (count_miss cfg st) = emitted st"
  "errorListener (count_miss cfg st) = errorListener st"
  "pending (count_miss cfg st) = pending st" "unhandled (count_miss cfg st) = unhandled st"
  "hits (stats (count_miss cfg st)) = hits (stats st)"
  "misses (stats (count_miss cfg st)) = misses (stats st) + (if enableStats cfg then 1 else 0)"
  by (simp_all add: count_miss_def)

lemma count_access_fields [simp]:
  "cache (count_access cfg st) = cache st" "timers (count_access cfg st) = timers st"
  "accessOrder (count_access cfg st) = accessOrder st" "tagsMap (count_access cfg st) = tagsMap st"
  "storage (count_access cfg st) = storage st" "emitted (count_access cfg st) = emitted st"
  "errorListener (count_access cfg st) = errorListener st"
  "pending (count_access cfg st) = pending st" "unhandled (count_access cfg st) = unhandled st"
  "hits (stats (count_access cfg st)) = hits (stats st)"
  "misses (stats (count_access cfg st)) = misses (stats st)"
  by (simp_all add: count_access_def)

lemma count_tag_eviction_fields [simp]:
  "cache (count_tag_eviction cfg st) = cache st" "timers (count_tag_eviction cfg st) = timers st"
  "accessOrder (count_tag_eviction cfg st) = accessOrder st"
  "tagsMap (count_tag_eviction cfg st) = tagsMap st"
  "storage (count_tag_eviction cfg st) = storage st"
  "emitted (count_tag_eviction cfg st) = emitted st"
  "errorListener (count_tag_eviction cfg st) = errorListener st"
  "pending (count_tag_eviction cfg st) = pending st"
  "unhandled (count_tag_eviction cfg st) = unhandled st"
  "hits (stats (count_tag_eviction cfg st)) = hits (stats st)"
  "misses (stats (count_tag_eviction cfg st)) = misses (stats st)"
  "evictions (stats (count_tag_eviction cfg st)) \<ge> evictions (stats st)"
  by (simp_all add: count_tag_eviction_def count_eviction_def)

lemma arm_timer_fields [simp]:
  "cache (arm_timer k v eff st) = cache st"
  "accessOrder (arm_timer k v eff st) = accessOrder st" "tagsMap (arm_timer k v eff st) = tagsMap st"
  "storage (arm_timer k v eff st) = storage st" "emitted (arm_timer k v eff st) = emitted st"
  "stats (arm_timer k v eff st) = stats st"
  "errorListener (arm_timer k v eff st) = errorListener st"
  "pending (arm_timer k v eff st) = pending st" "unhandled (arm_timer k v eff st) = unhandled st"
  by (simp_all add: arm_timer_def)

lemma insert_entry_fields [simp]:
  "cache (insert_entry now k eff ts st) = AList.update k (new_item now eff ts) (cache st)"
  "accessOrder (insert_entry now k eff ts st) = AList.update k (now 2) (accessOrder st)"
  "timers (insert_entry now k eff ts st) = timers st"
  "tagsMap (insert_entry now k eff ts st) = tagsMap st"
  "storage (insert_entry now k eff ts st) = storage st"
  "emitted (insert_entry now k eff ts st) = emitted st"
  "stats (insert_entry now k eff ts st) = stats st"
  "errorListener (insert_entry now k eff ts st) = errorListener st"
  "pending (insert_entry now k eff ts st) = pending st"
  "unhandled (insert_entry now k eff ts st) = unhandled st"
  by (simp_all add: insert_entry_def)

lemma new_engine_fields [simp]:
  "cache (new_engine s) = []" "timers (new_engine s) = []" "accessOrder (new_engine s) = []"
  "tagsMap (new_engine s) = []" "stats (new_engine s) = no_stats" "emitted (new_engine s) = []"
  "storage (new_engine s) = s" "errorListener (new_engine s) = False"
  "pending (new_engine s) = []" "unhandled (new_engine s) = []"
  by (simp_all add: new_engine_def)

lemma purge_fields [simp]:
  "stats (purge k st) = stats st" "emitted (purge k st) = emitted st"
  "storage (purge k st) = storage st" "tagsMap (purge k st) = tagsMap st"
  "timers (purge k st) = timers st"
  "errorListener (purge k st) = errorListener st"
  "pending (purge k st) = pending st" "unhandled (purge k st) = unhandled st"
  "cache (purge k st) = AList.delete k (cache st)"
  "accessOrder (purge k st) = AList.delete k (accessOrder st)"
  by (simp_all add: purge_def)

lemma unlink_fields [simp]:
  "cache (unlink cfg k it v st) = AList.delete k (cache st)"
  "accessOrder (unlink cfg k it v st) = AList.delete k (accessOrder st)"
  "timers (unlink cfg k it v st) = AList.delete k (timers st)"
  "tagsMap (unlink cfg k it v st) = remove_tags k (tags it) (tagsMap st)"
  "storage (unlink cfg k it v st) = storage st"
  "emitted (unlink cfg k it v st) = emitted st @ [EvDelete k v]"
  "errorListener (unlink cfg k it v st) = errorListener st"
  "pending (unlink cfg k it v st) = pending st" "unhandled (unlink cfg k it v st) = unhandled st"
  "hits (stats (unlink cfg k it v st)) = hits (stats st)"
  "misses (stats (unlink cfg k it v st)) = misses (stats st)"
  "evictions (stats (unlink cfg k it v st)) = evictions (stats st)"
  by (simp_all add: unlink_def)

lemma slide_fields:
  "cache (snd (slide cfg t k v it st)) = cache st"
  "accessOrder (snd (slide cfg t k v it st)) = accessOrder st"
  "stats (snd (slide cfg t k v it st)) = stats st"
  "storage (snd (slide cfg t k v it st)) = storage st"
  "emitted (snd (slide cfg t k v it st)) = emitted st"
  "errorListener (snd (slide cfg t k v it st)) = errorListener st"
  "pending (snd (slide cfg t k v it st)) = pending st"
  "unhandled (snd (slide cfg t k v it st)) = unhandled st"
  by (simp_all add: slide_def split: option.splits)

lemma adapter_memory_options [simp]: "adapter (memory_options raw) = MemoryAdapter"
  by (simp add: memory_options_def constructor_def)

subsection \<open>What a deletion keeps\<close>

lemma delete_cases [case_names absent failed removed]:
  obtains "map_of (cache st) k = None" "delete cfg k st = (Inr RThis, st)"
  | it e s where "map_of (cache st) k = Some it"
      "delete cfg k st =
         ((if errorListener st then Inr RThis else Inl e), emit (EvError e) (st\<lparr>storage := s\<rparr>))"
      "ad_delete (adapter cfg) (snd (ad_get (adapter cfg) (storage st) k)) k = (Inl e, s)"
  | it v s b where "map_of (cache st) k = Some it"
      "delete cfg k st = (Inr RThis, unlink cfg k it v (st\<lparr>storage := s\<rparr>))"
      "ad_delete (adapter cfg) (snd (ad_get (adapter cfg) (storage st) k)) k = (Inr b, s)"
      "v = event_value (fst (ad_get (adapter cfg) (storage st) k))"
proof (cases "map_of (cache st) k")
  case None
  then have "delete cfg k st = (Inr RThis, st)"
    by (simp add: delete_def delete_body_def caught_def)
  with None show ?thesis using that(1) by blast
next
  case (Some it)
  obtain r1 s1 where g: "ad_get (adapter cfg) (storage st) k = (r1, s1)"
    by (cases "ad_get (adapter cfg) (storage st) k")
  obtain r2 s2 where d: "ad_delete (adapter cfg) s1 k = (r2, s2)"
    by (cases "ad_delete (adapter cfg) s1 k")
  show ?thesis
  proof (cases r2)
    case (Inl e)
    with Some g d have "delete cfg k st =
         ((if errorListener st then Inr RThis else Inl e), emit (EvError e) (st\<lparr>storage := s2\<rparr>))"
      by (simp add: delete_def delete_body_def caught_def emit_error_def)
    with Some g d Inl show ?thesis using that(2) by simp
  next
    case (Inr b)
    with Some g d have "delete cfg k st = (Inr RThis, unlink cfg k it (event_value r1) (st\<lparr>storage := s2\<rparr>))"
      by (simp add: delete_def delete_body_def caught_def)
    with Some g d Inr show ?thesis using that(3) by simp
  qed
qed

lemma filter_none: "filter (\<lambda>p. fst p \<notin> {}) al = al"
  by simp

lemma delete_as_filter: "AList.delete k al = filter (\<lambda>p. fst p \<notin> {k}) al"
  by (induction al) auto

lemma part_of_refl: "part_of st st"
  unfolding part_of_def by (auto intro: exI [of _ "{}"])

lemma filter_keys_twice:
  "filter (\<lambda>p. fst p \<notin> K2) (filter (\<lambda>p. fst p \<notin> K1) al) = filter (\<lambda>p. fst p \<notin> K1 \<union> K2) al"
  by (simp add: conj_commute)

lemma part_of_trans:
  assumes "part_of st2 st1" and "part_of st1 st"
  shows "part_of st2 st"
proof -
  from assms(1) obtain K2 T2 where k2:
    "cache st2 = filter (\<lambda>p. fst p \<notin> K2) (cache st1)"
    "accessOrder st2 = filter (\<lambda>p. fst p \<notin> K2) (accessOrder st1)"
    "timers st2 = filter (\<lambda>p. fst p \<notin> T2) (timers st1)"
    unfolding part_of_def by blast
  from assms(2) obtain K1 T1 where k1:
    "cache st1 = filter (\<lambda>p. fst p \<notin> K1) (cache st)"
    "accessOrder st1 = filter (\<lambda>p. fst p \<notin> K1) (accessOrder st)"
    "timers st1 = filter (\<lambda>p. fst p \<notin> T1) (timers st)"
    unfolding part_of_def by blast
  have "cache st2 = filter (\<lambda>p. fst p \<notin> K1 \<union> K2) (cache st)"
    "accessOrder st2 = filter (\<lambda>p. fst p \<notin> K1 \<union> K2) (accessOrder st)"
    "timers st2 = filter (\<lambda>p. fst p \<notin> T1 \<union> T2) (timers st)"
    using k1 k2 by (simp_all only: filter_keys_twice)
  moreover have "hits (stats st2) = hits (stats st)" "misses (stats st2) = misses (stats st)"
    "evictions (stats st2) \<ge> evictions (stats st)" "errorListener st2 = errorListener st"
    using assms unfolding part_of_def by auto
  ultimately show ?thesis unfolding part_of_def by blast
qed

lemma part_of_frame:
  assumes "cache st' = cache st" "accessOrder st' = accessOrder st" "timers st' = timers st"
    "hits (stats st') = hits (stats st)" "misses (stats st') = misses (stats st)"
    "evictions (stats st') \<ge> evictions (stats st)" "errorListener st' = errorListener st"
  shows "part_of st' st"
  unfolding part_of_def using assms by (auto intro: exI [of _ "{}"])

lemma part_of_unlink: "part_of (unlink cfg k it v st) st"
  unfolding part_of_def by (auto simp: delete_as_filter intro: exI [of _ "{k}"])

lemma part_of_storage: "part_of (st\<lparr>storage := s\<rparr>) st"
  by (rule part_of_frame) simp_all

lemma part_of_delete: "part_of (snd (delete cfg k st)) st"
proof (cases rule: delete_cases [of st k cfg])
  case absent
  then show ?thesis by (simp add: part_of_refl)
next
  case (failed it e s)
  then show ?thesis
    by (intro part_of_frame) simp_all
next
  case (removed it v s b)
  then show ?thesis
    using part_of_trans [OF part_of_unlink part_of_storage] by simp
qed

lemma part_of_deleted:
  assumes "delete cfg k st = (r, st')"
  shows "part_of st' st"
  using part_of_delete [of cfg k st] assms by simp

lemma part_of_send: "part_of (snd (send cfg k it r1 st)) st"
  by (cases "ad_delete (adapter cfg) (storage st) k") (simp add: send_def part_of_storage)

lemma part_of_finish: "part_of (snd (finish cfg k it v r2 st)) st"
  by (cases r2) (simp_all add: finish_def part_of_unlink part_of_frame)

lemma part_of_advance: "part_of (snd (advance cfg p st)) st"
proof (cases p)
  case (AwaitGet k it r1)
  then show ?thesis
    using part_of_send [of cfg k it r1 st] by (auto split: prod.splits)
next
  case (AwaitDelete k it v r2)
  have "part_of (st'\<lparr>unhandled := u\<rparr>) st" if "part_of st' st" for st' u
    by (rule part_of_trans [OF _ that]) (rule part_of_frame; simp)
  with AwaitDelete show ?thesis
    using part_of_finish [of cfg k it v r2 st] by (auto split: prod.splits option.splits)
qed

lemma part_of_pending: "part_of (st\<lparr>pending := ps\<rparr>) st"
  by (rule part_of_frame) simp_all

lemma part_of_resume: "part_of (resume cfg i st) st"
proof -
  have "part_of (st'\<lparr>pending := ps\<rparr>) st" if "advance cfg p st = (q, st')" for p q st' ps
  proof -
    from that have "snd (advance cfg p st) = st'" by simp
    with part_of_advance [of cfg p st] have "part_of st' st" by simp
    then show ?thesis by (rule part_of_trans [OF part_of_pending])
  qed
  then show ?thesis
    by (auto simp: resume_def Let_def part_of_refl split: prod.splits option.splits)
qed

lemma part_of_resumes: "part_of (resumes cfg is st) st"
proof (induction "is" arbitrary: st)
  case Nil
  show ?case by (simp add: resumes_def part_of_refl)
next
  case (Cons i "is")
  have "resumes cfg (i # is) st = resumes cfg is (resume cfg i st)"
    by (simp add: resumes_def)
  then show ?case
    using part_of_trans [OF Cons.IH [of "resume cfg i st"] part_of_resume] by simp
qed

lemma part_of_start_delete: "part_of (start_delete cfg k st) st"
  by (rule part_of_frame)
     (auto simp: start_delete_def Let_def split: option.splits prod.splits)

lemma part_of_evict_tagged: "part_of (snd (evict_tagged cfg t st)) st"
proof -
  have "part_of (emit ev (count_tag_eviction cfg st')) st"
    if "delete cfg k st = (r, st')" for ev k r st'
    by (rule part_of_trans [OF _ part_of_deleted [OF that]]) (rule part_of_frame; simp)
  then show ?thesis
    using part_of_deleted [of cfg _ st]
    by (auto simp: evict_tagged_def part_of_refl split: option.splits prod.splits sum.splits)
qed

lemma part_of_tag_step: "part_of (snd (tag_step cfg k t st)) st"
proof -
  have a: "part_of (st\<lparr>tagsMap := add_tag k t (tagsMap st)\<rparr>) st"
    by (rule part_of_frame) simp_all
  show ?thesis
    unfolding tag_step_def Let_def
    using a part_of_trans [OF part_of_evict_tagged a] by simp
qed

lemma part_of_tag_loop: "part_of (snd (tag_loop cfg k ts st)) st"
proof (induction ts arbitrary: st)
  case Nil
  show ?case by (simp add: part_of_refl)
next
  case (Cons t ts)
  show ?case
    using part_of_trans [OF Cons.IH [of "snd (tag_step cfg k t st)"] part_of_tag_step]
      part_of_tag_step [of cfg k t st]
    by (auto split: prod.splits option.splits)
qed

lemma part_of_evictLRU: "part_of (evictLRU cfg st) st"
proof -
  have "part_of (emit ev (count_eviction (start_delete cfg k st))) st" for ev k
    by (rule part_of_trans [OF _ part_of_start_delete]) (rule part_of_frame; simp)
  then show ?thesis
    by (simp add: evictLRU_def part_of_refl split: option.splits)
qed

lemma map_of_filter_keys:
  "map_of (filter (\<lambda>p. fst p \<notin> K) al) k = (if k \<in> K then None else map_of al k)"
  by (induction al) auto

lemma part_of_cache_lookup:
  assumes "part_of st' st"
  shows "map_of (cache st') k = None \<or> map_of (cache st') k = map_of (cache st) k"
  using assms unfolding part_of_def by (auto simp: map_of_filter_keys)


lemma part_of_length:
  assumes "part_of st' st"
  shows "length (cache st') \<le> length (cache st)"
  using assms unfolding part_of_def by auto

lemma part_of_listener:
  assumes "part_of st' st"
  shows "errorListener st' = errorListener st"
  using assms unfolding part_of_def by simp

subsection \<open>The scan for the least recently used key\<close>





subsection \<open>Started deletions\<close>


lemma resumes_none: "pending st = [] \<Longrightarrow> resumes cfg is st = st"
  by (induction "is") (simp_all add: resumes_def resume_def)

lemma resumes_one [simp]: "resumes cfg [i] st = resume cfg i st"
  by (simp add: resumes_def)

lemma resumes_nil [simp]: "resumes cfg [] st = st"
  by (simp add: resumes_def)

lemma prompt_fields [simp]:
  "at_evict prompt = [0]" "at_write prompt = [0]" "at_settle prompt = [0]"
  by (simp_all add: prompt_def)









subsection \<open>The successful write\<close>

lemma part_of_set_check: "part_of (snd (set_check cfg k st)) st"
proof -
  define st1 where "st1 = (case map_of (cache st) k of
                   None \<Rightarrow> st
                 | Some it \<Rightarrow> st\<lparr>tagsMap := remove_tags k (tags it) (tagsMap st)\<rparr>)"
  have 1: "part_of st1 st"
    unfolding st1_def by (rule part_of_frame) (simp_all split: option.splits)
  have "part_of (evictLRU cfg st1) st"
    by (rule part_of_trans [OF part_of_evictLRU 1])
  with 1 show ?thesis
    by (simp add: set_check_def Let_def st1_def [symmetric])
qed

lemma part_of_timer_cleared: "part_of (st\<lparr>timers := AList.delete k (timers st)\<rparr>) st"
  unfolding part_of_def
  by (auto simp: delete_as_filter intro: exI [of _ "{}"] exI [of _ "{k}"])

lemma part_of_set_prepare: "part_of (set_prepare cfg sch k st) st"
proof -
  obtain aw st1 where sc: "set_check cfg k st = (aw, st1)"
    by (cases "set_check cfg k st")
  have 1: "part_of st1 st"
    using part_of_set_check [of cfg k st] sc by simp
  define st2 where "st2 = (if aw then resumes cfg (at_evict sch) st1 else st1)"
  have 2: "part_of st2 st"
    unfolding st2_def using 1 part_of_trans [OF part_of_resumes 1] by simp
  have "set_prepare cfg sch k st = st2\<lparr>timers := AList.delete k (timers st2)\<rparr>"
    by (simp add: set_prepare_def sc st2_def Let_def)
  then show ?thesis
    using part_of_trans [OF part_of_timer_cleared 2] by simp
qed


lemma set_until_write_cases [case_names skipped refused thrown written]:
  obtains "set_until_write cfg sch k v c st = (Skipped, st)" "\<not> passes c k v"
  | e where "set_until_write cfg sch k v c st = (Thrown e, st)" "\<not> passes c k v"
  | e where "set_until_write cfg sch k v c st = (Thrown e, set_prepare cfg sch k st)"
      "passes c k v" "serialize cfg v = Inl e"
  | r s sv where "set_until_write cfg sch k v c st
                    = (Written r, (set_prepare cfg sch k st)\<lparr>storage := s\<rparr>)"
      "passes c k v" "serialize cfg v = Inr sv"
      "ad_set (adapter cfg) (storage (set_prepare cfg sch k st)) k sv = (r, s)"
proof (cases "passes c k v")
  case False
  then obtain f where f: "c = Some f" "f k v \<noteq> Inr True"
    by (auto simp: passes_def split: option.splits)
  show ?thesis
  proof (cases "f k v")
    case (Inl e)
    with f have "set_until_write cfg sch k v c st = (Thrown e, st)"
      by (simp add: set_until_write_def)
    with False show ?thesis using that(2) by blast
  next
    case (Inr b)
    with f have "set_until_write cfg sch k v c st = (Skipped, st)"
      by (simp add: set_until_write_def)
    with False show ?thesis using that(1) by blast
  qed
next
  case True
  then have p: "(case c of None \<Rightarrow> Inr True | Some f \<Rightarrow> f k v) = Inr True"
    by (auto simp: passes_def split: option.splits)
  show ?thesis
  proof (cases "serialize cfg v")
    case (Inl e)
    then have "set_until_write cfg sch k v c st = (Thrown e, set_prepare cfg sch k st)"
      by (simp add: set_until_write_def p)
    with True Inl show ?thesis using that(3) by blast
  next
    case (Inr sv)
    obtain r s where w: "ad_set (adapter cfg) (storage (set_prepare cfg sch k st)) k sv = (r, s)"
      by (cases "ad_set (adapter cfg) (storage (set_prepare cfg sch k st)) k sv")
    with Inr have "set_until_write cfg sch k v c st
                    = (Written r, (set_prepare cfg sch k st)\<lparr>storage := s\<rparr>)"
      by (simp add: set_until_write_def p)
    with True Inr w show ?thesis using that(4) by blast
  qed
qed

lemma part_of_set_until_write: "part_of (snd (set_until_write cfg sch k v c st)) st"
  by (cases rule: set_until_write_cases [of cfg sch k v c st])
     (use part_of_trans [OF part_of_storage part_of_set_prepare] in
        \<open>simp_all add: part_of_refl part_of_set_prepare\<close>)



lemma set_store_success:
  assumes "set_store cfg now k v eff ts stp = (None, st')"
  shows "\<exists>st1. tag_loop cfg k ts (insert_entry now k eff ts stp) = (None, st1)
           \<and> st' = emit (EvSet k v) (count_set cfg (arm_timer k v eff st1))"
  using assms by (auto simp: set_store_def split: prod.splits option.splits)



subsection \<open>What set does before and after the write\<close>

lemma set_check_present:
  assumes "map_of (cache st) k = Some it"
  shows "set_check cfg k st = (False, st\<lparr>tagsMap := remove_tags k (tags it) (tagsMap st)\<rparr>)"
  using assms by (simp add: set_check_def)

lemma set_check_room:
  assumes "map_of (cache st) k = None" "of_nat (length (cache st)) < maxSize cfg"
  shows "set_check cfg k st = (False, st)"
  using assms by (simp add: set_check_def)




lemma set_prepare_no_eviction:
  assumes "map_of (cache st) k \<noteq> None \<or> of_nat (length (cache st)) < maxSize cfg"
  shows "cache (set_prepare cfg sch k st) = cache st"
    "accessOrder (set_prepare cfg sch k st) = accessOrder st"
    "stats (set_prepare cfg sch k st) = stats st"
    "emitted (set_prepare cfg sch k st) = emitted st"
    "storage (set_prepare cfg sch k st) = storage st"
    "pending (set_prepare cfg sch k st) = pending st"
    "timers (set_prepare cfg sch k st) = AList.delete k (timers st)"
proof -
  obtain tm where
    p: "set_prepare cfg sch k st = st\<lparr>tagsMap := tm, timers := AList.delete k (timers st)\<rparr>"
  proof (cases "map_of (cache st) k")
    case None
    with assms have "set_check cfg k st = (False, st)" by (simp add: set_check_room)
    then have "set_prepare cfg sch k st
                 = st\<lparr>tagsMap := tagsMap st, timers := AList.delete k (timers st)\<rparr>"
      by (simp add: set_prepare_def)
    then show ?thesis using that by blast
  next
    case (Some it)
    then have "set_prepare cfg sch k st
                 = st\<lparr>tagsMap := remove_tags k (tags it) (tagsMap st),
                      timers := AList.delete k (timers st)\<rparr>"
      by (simp add: set_prepare_def set_check_present)
    then show ?thesis using that by blast
  qed
  show "cache (set_prepare cfg sch k st) = cache st"
    "accessOrder (set_prepare cfg sch k st) = accessOrder st"
    "stats (set_prepare cfg sch k st) = stats st"
    "emitted (set_prepare cfg sch k st) = emitted st"
    "storage (set_prepare cfg sch k st) = storage st"
    "pending (set_prepare cfg sch k st) = pending st"
    "timers (set_prepare cfg sch k st) = AList.delete k (timers st)"
    unfolding p by simp_all
qed


lemma awaited_set_fields:
  "fst (awaited_set cfg sch now k v ttl ts c st) = fst (set_op cfg sch now k v ttl ts c st)"
  "snd (awaited_set cfg sch now k v ttl ts c st)
     = resumes cfg (at_settle sch) (snd (set_op cfg sch now k v ttl ts c st))"
  by (simp_all add: awaited_set_def split: prod.splits)





subsection \<open>The capacity invariant is kept by every call\<close>




lemma entries_kept_storage [simp]: "entries_kept cfg (st\<lparr>storage := s\<rparr>) = entries_kept cfg st"
  by (simp add: entries_kept_def)

lemma entries_kept_pending [simp]: "entries_kept cfg (st\<lparr>pending := p\<rparr>) = entries_kept cfg st"
  by (simp add: entries_kept_def)

lemma entries_kept_emit [simp]: "entries_kept cfg (emit ev st) = entries_kept cfg st"
  by (simp add: entries_kept_def)

lemma entries_kept_count_miss [simp]: "entries_kept cfg (count_miss cfg' st) = entries_kept cfg st"
  by (simp add: entries_kept_def)

lemma entries_kept_count_hit [simp]: "entries_kept cfg (count_hit cfg' st) = entries_kept cfg st"
  by (simp add: entries_kept_def)

lemma entries_kept_count_access [simp]: "entries_kept cfg (count_access cfg' st) = entries_kept cfg st"
  by (simp add: entries_kept_def)














lemma caught_state:
  "snd (caught (r, st)) = (case r of Inl e \<Rightarrow> emit (EvError e) st | Inr x \<Rightarrow> st)"
  by (cases r) (simp_all add: caught_def emit_error_def)





lemma well_kept_storage [simp]: "well_kept cfg (st\<lparr>storage := s\<rparr>) = well_kept cfg st"
  by (simp add: well_kept_def)

lemma well_kept_emit [simp]: "well_kept cfg (emit ev st) = well_kept cfg st"
  by (simp add: well_kept_def)

lemma well_kept_count_miss [simp]: "well_kept cfg (count_miss cfg' st) = well_kept cfg st"
  by (simp add: well_kept_def)

lemma well_kept_count_hit [simp]: "well_kept cfg (count_hit cfg' st) = well_kept cfg st"
  by (simp add: well_kept_def)

lemma well_kept_count_access [simp]: "well_kept cfg (count_access cfg' st) = well_kept cfg st"
  by (simp add: well_kept_def)

lemma well_kept_listener [simp]: "well_kept cfg (st\<lparr>errorListener := b\<rparr>) = well_kept cfg st"
  by (simp add: well_kept_def entries_kept_def)






lemma start_all_keeps:
  "part_of (snd (start_all cfg ks st)) st \<and> pending (snd (start_all cfg ks st)) = pending st"
proof (induction ks arbitrary: st)
  case Nil
  show ?case by (simp add: part_of_refl)
next
  case (Cons k ks)
  show ?case
  proof (cases "map_of (cache st) k")
    case None
    with Cons.IH [of st] show ?thesis by simp
  next
    case (Some it)
    obtain r1 s1 where g: "ad_get (adapter cfg) (storage st) k = (r1, s1)"
      by (cases "ad_get (adapter cfg) (storage st) k")
    from Cons.IH [of "st\<lparr>storage := s1\<rparr>"] part_of_trans [OF _ part_of_storage]
    show ?thesis
      using Some g by (auto split: prod.splits)
  qed
qed

lemma send_all_keeps:
  "part_of (snd (send_all cfg ps st)) st \<and> pending (snd (send_all cfg ps st)) = pending st"
proof (induction ps arbitrary: st)
  case Nil
  show ?case by (simp add: part_of_refl)
next
  case (Cons p ps)
  show ?case
  proof (cases p)
    case (AwaitGet k it r1)
    obtain r2 s2 where d: "ad_delete (adapter cfg) (storage st) k = (r2, s2)"
      by (cases "ad_delete (adapter cfg) (storage st) k")
    from Cons.IH [of "st\<lparr>storage := s2\<rparr>"] part_of_trans [OF _ part_of_storage]
    show ?thesis
      using AwaitGet d by (auto simp: send_def split: prod.splits)
  next
    case (AwaitDelete k it v r2)
    with Cons.IH [of st] show ?thesis by (auto split: prod.splits)
  qed
qed

lemma pending_finish: "pending (snd (finish cfg k it v r2 st)) = pending st"
  by (cases r2) (simp_all add: finish_def)

lemma finish_all_keeps:
  "part_of (snd (finish_all cfg ps st)) st \<and> pending (snd (finish_all cfg ps st)) = pending st"
proof (induction ps arbitrary: st)
  case Nil
  show ?case by (simp add: part_of_refl)
next
  case (Cons p ps)
  show ?case
  proof (cases p)
    case (AwaitGet k it r1)
    with Cons.IH [of st] show ?thesis by simp
  next
    case (AwaitDelete k it v r2)
    obtain e st1 where f: "finish cfg k it v r2 st = (e, st1)"
      by (cases "finish cfg k it v r2 st")
    have 1: "part_of st1 st" "pending st1 = pending st"
      using part_of_finish [of cfg k it v r2 st] pending_finish [of cfg k it v r2 st] f
      by simp_all
    from Cons.IH [of st1] part_of_trans [OF _ 1(1)] 1(2)
    show ?thesis
      using AwaitDelete f by (auto split: prod.splits)
  qed
qed

lemma deleteMultiple_keeps:
  "part_of (snd (deleteMultiple cfg ks st)) st"
  "pending (snd (deleteMultiple cfg ks st)) = pending st"
proof -
  obtain ps st1 where 1: "start_all cfg ks st = (ps, st1)" by (cases "start_all cfg ks st")
  obtain ps' st2 where 2: "send_all cfg ps st1 = (ps', st2)" by (cases "send_all cfg ps st1")
  obtain es st3 where 3: "finish_all cfg ps' st2 = (es, st3)" by (cases "finish_all cfg ps' st2")
  have s: "snd (deleteMultiple cfg ks st) = st3"
    by (simp add: deleteMultiple_def 1 2 3 split: list.splits)
  from start_all_keeps [of cfg ks st] 1 have a: "part_of st1 st" "pending st1 = pending st"
    by simp_all
  from send_all_keeps [of cfg ps st1] 2 have b: "part_of st2 st1" "pending st2 = pending st1"
    by simp_all
  from finish_all_keeps [of cfg ps' st2] 3 have c: "part_of st3 st2" "pending st3 = pending st2"
    by simp_all
  show "part_of (snd (deleteMultiple cfg ks st)) st"
    unfolding s by (rule part_of_trans [OF c(1) part_of_trans [OF b(1) a(1)]])
  show "pending (snd (deleteMultiple cfg ks st)) = pending st"
    unfolding s using a b c by simp
qed

lemma deleteByTag_state:
  "snd (deleteByTag cfg t st) =
     (case map_of (tagsMap st) t of None \<Rightarrow> st | Some ks \<Rightarrow> snd (deleteMultiple cfg ks st))"
  by (auto simp: deleteByTag_def split: option.splits prod.splits sum.splits)

lemma deleteByTag_keeps:
  "part_of (snd (deleteByTag cfg t st)) st"
  "pending (snd (deleteByTag cfg t st)) = pending st"
  by (simp_all add: deleteByTag_state deleteMultiple_keeps part_of_refl split: option.splits)

lemma getOrSet_state:
  "snd (getOrSet cfg sch now_get now_set k loaded ttl st) =
     (case fst (get cfg now_get k st) of
        Inl e \<Rightarrow> emit (EvError e) (snd (get cfg now_get k st))
      | Inr v \<Rightarrow>
          (if v = Undefined
           then (case loaded of
                   Inl e \<Rightarrow> emit (EvError e) (snd (get cfg now_get k st))
                 | Inr v' \<Rightarrow>
                     (case fst (awaited_set cfg sch now_set k v' ttl [] None (snd (get cfg now_get k st))) of
                        Inl e \<Rightarrow> emit (EvError e)
                                  (snd (awaited_set cfg sch now_set k v' ttl [] None (snd (get cfg now_get k st))))
                      | Inr r \<Rightarrow> snd (awaited_set cfg sch now_set k v' ttl [] None (snd (get cfg now_get k st)))))
           else snd (get cfg now_get k st)))"
  by (auto simp: getOrSet_def split: prod.splits sum.splits)








subsection \<open>The hit and miss counters and the listener\<close>

lemma part_of_counters:
  assumes "part_of st' st"
  shows "hits (stats st') = hits (stats st)" "misses (stats st') = misses (stats st)"
    "errorListener st' = errorListener st"
  using assms unfolding part_of_def by simp_all

lemma delete_counters:
  "hits (stats (snd (delete cfg k st))) = hits (stats st)"
  "misses (stats (snd (delete cfg k st))) = misses (stats st)"
  "errorListener (snd (delete cfg k st)) = errorListener st"
  using part_of_counters [OF part_of_delete] by blast+

lemma deleted_counters:
  assumes "delete cfg k st = (r, st')"
  shows "hits (stats st') = hits (stats st)" "misses (stats st') = misses (stats st)"
    "errorListener st' = errorListener st"
  using delete_counters [of cfg k st] assms by simp_all

lemma get_hit_counters:
  "hits (stats (get_hit cfg now k v it st)) = hits (stats st) + (if enableStats cfg then 1 else 0)"
  "misses (stats (get_hit cfg now k v it st)) = misses (stats st)"
  "errorListener (get_hit cfg now k v it st) = errorListener st"
proof -
  obtain it' st' where sl:
    "slide cfg (now 2) k v (it\<lparr>accessCount := accessCount it + 1\<rparr>)
        (st\<lparr>accessOrder := AList.update k (now 1) (accessOrder st)\<rparr>) = (it', st')"
    by (cases "slide cfg (now 2) k v (it\<lparr>accessCount := accessCount it + 1\<rparr>)
        (st\<lparr>accessOrder := AList.update k (now 1) (accessOrder st)\<rparr>)")
  from slide_fields(3,6) [of cfg "now 2" k v "it\<lparr>accessCount := accessCount it + 1\<rparr>"
        "st\<lparr>accessOrder := AList.update k (now 1) (accessOrder st)\<rparr>"] sl
  have f: "stats st' = stats st" "errorListener st' = errorListener st" by simp_all
  have g: "get_hit cfg now k v it st
             = emit (EvGet k v) (count_hit cfg (st'\<lparr>cache := AList.update k it' (cache st')\<rparr>))"
    by (simp only: get_hit_def Let_def sl prod.case)
  show "hits (stats (get_hit cfg now k v it st)) = hits (stats st) + (if enableStats cfg then 1 else 0)"
    "misses (stats (get_hit cfg now k v it st)) = misses (stats st)"
    "errorListener (get_hit cfg now k v it st) = errorListener st"
    unfolding g using f by simp_all
qed

lemma get_value_cases [case_names failed purged hit]:
  obtains e where "get_value cfg now k it raw st = (Inl e, st)"
  | "get_value cfg now k it raw st = (Inr Undefined, count_miss cfg (purge k st))"
  | v where "v \<noteq> Undefined" "get_value cfg now k it raw st = (Inr v, get_hit cfg now k v it st)"
proof (cases "if raw \<noteq> Undefined then deserialize cfg raw else Inr raw")
  case (Inl e)
  then have "get_value cfg now k it raw st = (Inl e, st)"
    by (simp add: get_value_def)
  then show ?thesis using that(1) by blast
next
  case (Inr v)
  show ?thesis
  proof (cases "v = Undefined")
    case True
    with Inr have "get_value cfg now k it raw st = (Inr Undefined, count_miss cfg (purge k st))"
      by (simp add: get_value_def)
    then show ?thesis using that(2) by blast
  next
    case False
    with Inr have "get_value cfg now k it raw st = (Inr v, get_hit cfg now k v it st)"
      by (simp add: get_value_def)
    with False show ?thesis using that(3) by blast
  qed
qed

lemma get_body_cases [case_names missed failed hit]:
  obtains st1 where "get_body cfg now k st = (Inr Undefined, count_miss cfg st1)"
      "hits (stats st1) = hits (stats st)" "misses (stats st1) = misses (stats st)"
      "errorListener st1 = errorListener st"
  | e st1 where "get_body cfg now k st = (Inl e, st1)"
      "hits (stats st1) = hits (stats st)" "misses (stats st1) = misses (stats st)"
      "errorListener st1 = errorListener st"
  | v it s where "v \<noteq> Undefined" "map_of (cache st) k = Some it"
      "get_body cfg now k st = (Inr v, get_hit cfg now k v it (st\<lparr>storage := s\<rparr>))"
proof (cases "map_of (cache st) k")
  case None
  then have "get_body cfg now k st = (Inr Undefined, count_miss cfg st)"
    by (simp add: get_body_def)
  then show ?thesis using that(1) by blast
next
  case (Some it)
  show ?thesis
  proof (cases "is_expired it (now 0)")
    case True
    obtain r st1 where d: "delete cfg k st = (r, st1)" by (cases "delete cfg k st")
    note c = deleted_counters [OF d]
    show ?thesis
    proof (cases r)
      case (Inl e)
      with Some True d have "get_body cfg now k st = (Inl e, st1)"
        by (simp add: get_body_def)
      with c show ?thesis using that(2) by blast
    next
      case (Inr x)
      with Some True d have "get_body cfg now k st = (Inr Undefined, count_miss cfg st1)"
        by (simp add: get_body_def)
      with c show ?thesis using that(1) by blast
    qed
  next
    case False
    obtain r s1 where g: "ad_get (adapter cfg) (storage st) k = (r, s1)"
      by (cases "ad_get (adapter cfg) (storage st) k")
    show ?thesis
    proof (cases r)
      case (Inl e)
      with Some False g have "get_body cfg now k st = (Inl e, st\<lparr>storage := s1\<rparr>)"
        by (simp add: get_body_def)
      then show ?thesis using that(2) [of e "st\<lparr>storage := s1\<rparr>"] by simp
    next
      case (Inr raw)
      with Some False g have b: "get_body cfg now k st = get_value cfg now k it raw (st\<lparr>storage := s1\<rparr>)"
        by (simp add: get_body_def)
      show ?thesis
      proof (cases rule: get_value_cases [of cfg now k it raw "st\<lparr>storage := s1\<rparr>"])
        case (failed e)
        with b show ?thesis using that(2) [of e "st\<lparr>storage := s1\<rparr>"] by simp
      next
        case purged
        with b show ?thesis using that(1) [of "purge k (st\<lparr>storage := s1\<rparr>)"] by simp
      next
        case (hit v)
        with b Some show ?thesis using that(3) [of v it s1] by simp
      qed
    qed
  qed
qed

lemma get_body_counters:
  "hits (stats (snd (get_body cfg now k st))) =
     hits (stats st) + (if enableStats cfg \<and> (\<exists>v. fst (get_body cfg now k st) = Inr v \<and> v \<noteq> Undefined) then 1 else 0)"
  "misses (stats (snd (get_body cfg now k st))) =
     misses (stats st) + (if enableStats cfg \<and> fst (get_body cfg now k st) = Inr Undefined then 1 else 0)"
  "errorListener (snd (get_body cfg now k st)) = errorListener st"
proof -
  have "hits (stats (snd (get_body cfg now k st))) =
     hits (stats st) + (if enableStats cfg \<and> (\<exists>v. fst (get_body cfg now k st) = Inr v \<and> v \<noteq> Undefined) then 1 else 0)
   \<and> misses (stats (snd (get_body cfg now k st))) =
     misses (stats st) + (if enableStats cfg \<and> fst (get_body cfg now k st) = Inr Undefined then 1 else 0)
   \<and> errorListener (snd (get_body cfg now k st)) = errorListener st"
  proof (cases rule: get_body_cases [of cfg now k st])
    case (missed st1)
    then show ?thesis by simp
  next
    case (failed e st1)
    then show ?thesis by simp
  next
    case (hit v it s)
    then show ?thesis by (simp add: get_hit_counters)
  qed
  then show "hits (stats (snd (get_body cfg now k st))) =
     hits (stats st) + (if enableStats cfg \<and> (\<exists>v. fst (get_body cfg now k st) = Inr v \<and> v \<noteq> Undefined) then 1 else 0)"
  "misses (stats (snd (get_body cfg now k st))) =
     misses (stats st) + (if enableStats cfg \<and> fst (get_body cfg now k st) = Inr Undefined then 1 else 0)"
  "errorListener (snd (get_body cfg now k st)) = errorListener st"
    by simp_all
qed

lemma get_counters:
  "hits (stats (snd (get cfg now k st))) =
     hits (stats st) + (if enableStats cfg \<and> (\<exists>v. fst (get cfg now k st) = Inr v \<and> v \<noteq> Undefined) then 1 else 0)"
  "misses (stats (snd (get cfg now k st))) =
     misses (stats st) + (if enableStats cfg \<and> fst (get cfg now k st) = Inr Undefined then 1 else 0)"
  "errorListener (snd (get cfg now k st)) = errorListener st"
proof -
  obtain r st' where b: "get_body cfg now k (count_access cfg st) = (r, st')"
    by (cases "get_body cfg now k (count_access cfg st)")
  from get_body_counters [of cfg now k "count_access cfg st"] b
  have h: "hits (stats st') = hits (stats st) + (if enableStats cfg \<and> (\<exists>v. r = Inr v \<and> v \<noteq> Undefined) then 1 else 0)"
    and m: "misses (stats st') = misses (stats st) + (if enableStats cfg \<and> r = Inr Undefined then 1 else 0)"
    and l: "errorListener st' = errorListener st"
    by simp_all
  show "hits (stats (snd (get cfg now k st))) =
     hits (stats st) + (if enableStats cfg \<and> (\<exists>v. fst (get cfg now k st) = Inr v \<and> v \<noteq> Undefined) then 1 else 0)"
    using h b by (cases r) (auto simp: get_def emit_error_def)
  show "misses (stats (snd (get cfg now k st))) =
     misses (stats st) + (if enableStats cfg \<and> fst (get cfg now k st) = Inr Undefined then 1 else 0)"
    using m b by (cases r) (auto simp: get_def emit_error_def)
  show "errorListener (snd (get cfg now k st)) = errorListener st"
    using l b by (cases r) (auto simp: get_def emit_error_def)
qed

text \<open>With a listener for \<open>error\<close>, \<open>get\<close> and \<open>delete\<close> do not reject.\<close>

lemma get_listened:
  assumes "errorListener st"
  shows "\<exists>v. fst (get cfg now k st) = Inr v"
proof -
  obtain r st' where b: "get_body cfg now k (count_access cfg st) = (r, st')"
    by (cases "get_body cfg now k (count_access cfg st)")
  from get_body_counters(3) [of cfg now k "count_access cfg st"] b assms
  have "errorListener st'" by simp
  with b show ?thesis by (cases r) (simp_all add: get_def emit_error_def)
qed

lemma delete_listened:
  assumes "errorListener st"
  shows "fst (delete cfg k st) = Inr RThis"
  using assms by (cases rule: delete_cases [of st k cfg]) simp_all

lemma set_store_counters:
  "hits (stats (snd (set_store cfg now k v eff ts st))) = hits (stats st)"
  "misses (stats (snd (set_store cfg now k v eff ts st))) = misses (stats st)"
  "errorListener (snd (set_store cfg now k v eff ts st)) = errorListener st"
  using part_of_counters [OF part_of_tag_loop, of cfg k ts "insert_entry now k eff ts st"]
  by (auto simp: set_store_def split: prod.splits option.splits)

lemma set_after_write_counters:
  "hits (stats (snd (set_after_write cfg now k v ttl ts r st))) = hits (stats st)"
  "misses (stats (snd (set_after_write cfg now k v ttl ts r st))) = misses (stats st)"
  "errorListener (snd (set_after_write cfg now k v ttl ts r st)) = errorListener st"
  using set_store_counters [of cfg now k v "resolve_ttl cfg ttl" ts st]
  by (auto simp: set_after_write_def split: prod.splits option.splits sum.splits)

lemma set_body_state:
  "snd (set_body cfg sch now k v ttl ts c st) =
     (case fst (set_until_write cfg sch k v c st) of
        Written r \<Rightarrow> snd (set_after_write cfg now k v ttl ts r
                            (resumes cfg (at_write sch) (snd (set_until_write cfg sch k v c st))))
      | _ \<Rightarrow> snd (set_until_write cfg sch k v c st))"
  by (auto simp: set_body_def split: prod.splits waiting.splits)

lemma set_body_counters:
  "hits (stats (snd (set_body cfg sch now k v ttl ts c st))) = hits (stats st)"
  "misses (stats (snd (set_body cfg sch now k v ttl ts c st))) = misses (stats st)"
  "errorListener (snd (set_body cfg sch now k v ttl ts c st)) = errorListener st"
proof -
  let ?u = "snd (set_until_write cfg sch k v c st)"
  note u = part_of_counters [OF part_of_set_until_write, of cfg sch k v c st]
  note w = part_of_counters [OF part_of_trans [OF part_of_resumes part_of_set_until_write],
      of cfg "at_write sch" cfg sch k v c st]
  show "hits (stats (snd (set_body cfg sch now k v ttl ts c st))) = hits (stats st)"
    "misses (stats (snd (set_body cfg sch now k v ttl ts c st))) = misses (stats st)"
    "errorListener (snd (set_body cfg sch now k v ttl ts c st)) = errorListener st"
    using u w by (simp_all add: set_body_state set_after_write_counters split: waiting.splits)
qed

lemma set_op_counters:
  "hits (stats (snd (set_op cfg sch now k v ttl ts c st))) = hits (stats st)"
  "misses (stats (snd (set_op cfg sch now k v ttl ts c st))) = misses (stats st)"
  "errorListener (snd (set_op cfg sch now k v ttl ts c st)) = errorListener st"
proof -
  obtain r st1 where b: "set_body cfg sch now k v ttl ts c st = (r, st1)"
    by (cases "set_body cfg sch now k v ttl ts c st")
  from set_body_counters [of cfg sch now k v ttl ts c st] b
  have "hits (stats st1) = hits (stats st)" "misses (stats st1) = misses (stats st)"
    "errorListener st1 = errorListener st"
    by simp_all
  then show "hits (stats (snd (set_op cfg sch now k v ttl ts c st))) = hits (stats st)"
    "misses (stats (snd (set_op cfg sch now k v ttl ts c st))) = misses (stats st)"
    "errorListener (snd (set_op cfg sch now k v ttl ts c st)) = errorListener st"
    by (simp_all add: set_op_def b caught_state split: sum.splits)
qed

text \<open>With a listener for \<open>error\<close>, \<open>set\<close> does not reject.\<close>

lemma set_op_listened:
  assumes "errorListener st"
  shows "\<exists>r. fst (set_op cfg sch now k v ttl ts c st) = Inr r"
proof -
  obtain r st1 where b: "set_body cfg sch now k v ttl ts c st = (r, st1)"
    by (cases "set_body cfg sch now k v ttl ts c st")
  from set_body_counters(3) [of cfg sch now k v ttl ts c st] b assms
  have "errorListener st1" by simp
  then show ?thesis
    by (cases r) (simp_all add: set_op_def b caught_def emit_error_def)
qed

lemma awaited_set_counters:
  "hits (stats (snd (awaited_set cfg sch now k v ttl ts c st))) = hits (stats st)"
  "misses (stats (snd (awaited_set cfg sch now k v ttl ts c st))) = misses (stats st)"
  "errorListener (snd (awaited_set cfg sch now k v ttl ts c st)) = errorListener st"
  using part_of_counters [OF part_of_resumes,
      of cfg "at_settle sch" "snd (set_op cfg sch now k v ttl ts c st)"]
  by (simp_all add: awaited_set_fields set_op_counters)

lemma has_state:
  "snd (has cfg now k st) =
     (case map_of (cache st) k of
        None \<Rightarrow> st
      | Some it \<Rightarrow>
          (if is_expired it (now 0) then snd (delete cfg k st)
           else (case fst (ad_has (adapter cfg) (storage st) k) of
                   Inl e \<Rightarrow> st\<lparr>storage := snd (ad_has (adapter cfg) (storage st) k)\<rparr>
                 | Inr b \<Rightarrow>
                     (if b then st\<lparr>storage := snd (ad_has (adapter cfg) (storage st) k)\<rparr>
                      else purge k (st\<lparr>storage := snd (ad_has (adapter cfg) (storage st) k)\<rparr>)))))"
proof (cases "map_of (cache st) k")
  case None
  then show ?thesis by (simp add: has_def)
next
  case (Some it)
  obtain r st1 where d: "delete cfg k st = (r, st1)" by (cases "delete cfg k st")
  obtain r2 s1 where h: "ad_has (adapter cfg) (storage st) k = (r2, s1)"
    by (cases "ad_has (adapter cfg) (storage st) k")
  show ?thesis
    by (cases r; cases r2) (simp_all add: has_def Some d h)
qed

lemma has_counters:
  "hits (stats (snd (has cfg now k st))) = hits (stats st)"
  "misses (stats (snd (has cfg now k st))) = misses (stats st)"
  by (simp_all add: has_state delete_counters split: option.splits sum.splits)

lemma clear_state:
  "snd (clear cfg st) =
     (case fst (ad_clear (adapter cfg) (storage st)) of
        Inl e \<Rightarrow> emit (EvError e) (st\<lparr>storage := snd (ad_clear (adapter cfg) (storage st))\<rparr>)
      | Inr b \<Rightarrow> emit EvClear (st\<lparr>storage := snd (ad_clear (adapter cfg) (storage st)),
                                  cache := [], timers := [], accessOrder := []\<rparr>))"
proof -
  obtain r s1 where c: "ad_clear (adapter cfg) (storage st) = (r, s1)"
    by (cases "ad_clear (adapter cfg) (storage st)")
  show ?thesis
    by (cases r) (simp_all add: clear_def c caught_state)
qed

lemma clear_counters:
  "hits (stats (snd (clear cfg st))) = hits (stats st)"
  "misses (stats (snd (clear cfg st))) = misses (stats st)"
  by (simp_all add: clear_state split: sum.splits)

lemma deleteByTag_counters:
  "hits (stats (snd (deleteByTag cfg t st))) = hits (stats st)"
  "misses (stats (snd (deleteByTag cfg t st))) = misses (stats st)"
  using part_of_counters [OF deleteByTag_keeps(1)] by blast+

lemma touch_counters:
  "hits (stats (snd (touch now k ttl st))) = hits (stats st)"
  "misses (stats (snd (touch now k ttl st))) = misses (stats st)"
  by (simp_all add: touch_def split: option.splits)

lemma getOrSet_counters:
  "hits (stats (snd (getOrSet cfg sch now_get now_set k loaded ttl st))) =
     hits (stats (snd (get cfg now_get k st)))"
  "misses (stats (snd (getOrSet cfg sch now_get now_set k loaded ttl st))) =
     misses (stats (snd (get cfg now_get k st)))"
  by (simp_all add: getOrSet_state awaited_set_counters split: sum.splits)

lemma resume_counters:
  "hits (stats (resume cfg i st)) = hits (stats st)"
  "misses (stats (resume cfg i st)) = misses (stats st)"
  using part_of_counters [OF part_of_resume] by blast+

lemma perform_counters:
  "hits (stats (perform cfg c st))
     = hits (stats st) + (if enableStats cfg \<and> reads_hit cfg c st then 1 else 0)"
  "misses (stats (perform cfg c st))
     = misses (stats st) + (if enableStats cfg \<and> reads_miss cfg c st then 1 else 0)"
  by (cases c; simp add: reads_hit_def reads_miss_def awaited_set_counters get_counters has_counters
        delete_counters clear_counters getOrSet_counters deleteByTag_counters touch_counters
        resume_counters split: sum.splits)+

lemma run_counters:
  "hits (stats (run cfg cs st))
     = hits (stats st) + (if enableStats cfg then hits_of cfg cs st else 0)
   \<and> misses (stats (run cfg cs st))
     = misses (stats st) + (if enableStats cfg then misses_of cfg cs st else 0)"
  by (induction cs arbitrary: st) (simp_all add: perform_counters)

lemma hit_rate_formula:
  "hitRate (getStats st) =
     (if hits (stats st) + misses (stats st) = 0 then Fin 0
      else Fin (of_nat (hits (stats st)) / of_nat (hits (stats st) + misses (stats st))))"
  by (simp add: getStats_def js_div_def or_zero_def)

subsection \<open>The in-memory backend after a write\<close>

lemma set_body_written:
  assumes "set_body cfg sch now k v ttl ts c st = (Inr RThis, st')"
  obtains r s sv where "serialize cfg v = Inr sv"
    "ad_set (adapter cfg) (storage (set_prepare cfg sch k st)) k sv = (r, s)"
    "set_store cfg now k v (resolve_ttl cfg ttl) ts
       (resumes cfg (at_write sch) ((set_prepare cfg sch k st)\<lparr>storage := s\<rparr>)) = (None, st')"
proof (cases rule: set_until_write_cases [of cfg sch k v c st])
  case skipped
  with assms show ?thesis by (simp add: set_body_def)
next
  case (refused e)
  with assms show ?thesis by (simp add: set_body_def)
next
  case (thrown e)
  with assms show ?thesis by (simp add: set_body_def)
next
  case (written r s sv)
  with assms have "set_after_write cfg now k v ttl ts r
      (resumes cfg (at_write sch) ((set_prepare cfg sch k st)\<lparr>storage := s\<rparr>)) = (Inr RThis, st')"
    by (simp add: set_body_def)
  then have "set_store cfg now k v (resolve_ttl cfg ttl) ts
       (resumes cfg (at_write sch) ((set_prepare cfg sch k st)\<lparr>storage := s\<rparr>)) = (None, st')"
    by (auto simp: set_after_write_def split: sum.splits prod.splits option.splits)
  with written show ?thesis using that by blast
qed

lemma store_part_refl: "store_part st st"
  unfolding store_part_def by (auto intro: exI [of _ "{}"])

lemma store_part_trans: "store_part st2 st1 \<Longrightarrow> store_part st1 st \<Longrightarrow> store_part st2 st"
  unfolding store_part_def by (metis filter_keys_twice)

lemma store_part_same: "storage st' = storage st \<Longrightarrow> store_part st' st"
  unfolding store_part_def by (auto intro: exI [of _ "{}"])

lemma store_part_removed: "storage st' = AList.delete k (storage st) \<Longrightarrow> store_part st' st"
  unfolding store_part_def by (auto simp: delete_as_filter intro: exI [of _ "{k}"])

lemma store_part_delete:
  assumes "adapter cfg = MemoryAdapter"
  shows "store_part (snd (delete cfg k st)) st"
proof (cases rule: delete_cases [of st k cfg])
  case absent
  then show ?thesis by (simp add: store_part_refl)
next
  case (failed it e s)
  with assms show ?thesis by (simp add: MemoryAdapter_def)
next
  case (removed it v s b)
  with assms have "s = AList.delete k (storage st)" by (auto simp: MemoryAdapter_def)
  with removed show ?thesis by (intro store_part_removed [where k = k]) simp
qed

lemma store_part_evict_tagged:
  assumes "adapter cfg = MemoryAdapter"
  shows "store_part (snd (evict_tagged cfg t st)) st"
proof -
  have "store_part (emit ev (count_tag_eviction cfg st')) st"
    if "delete cfg k st = (r, st')" for ev k r st'
  proof -
    from store_part_delete [OF assms, of k st] that have "store_part st' st" by simp
    then show ?thesis
      by (rule store_part_trans [OF store_part_same, rotated]) simp
  qed
  moreover have "store_part st' st" if "delete cfg k st = (r, st')" for k r st'
    using store_part_delete [OF assms, of k st] that by simp
  ultimately show ?thesis
    by (auto simp: evict_tagged_def store_part_refl split: option.splits prod.splits sum.splits)
qed

lemma store_part_tag_step:
  assumes "adapter cfg = MemoryAdapter"
  shows "store_part (snd (tag_step cfg k t st)) st"
proof -
  have a: "store_part (st\<lparr>tagsMap := add_tag k t (tagsMap st)\<rparr>) st"
    by (rule store_part_same) simp
  show ?thesis
    unfolding tag_step_def Let_def
    using a store_part_trans [OF store_part_evict_tagged [OF assms] a] by simp
qed

lemma store_part_tag_loop:
  assumes "adapter cfg = MemoryAdapter"
  shows "store_part (snd (tag_loop cfg k ts st)) st"
proof (induction ts arbitrary: st)
  case Nil
  show ?case by (simp add: store_part_refl)
next
  case (Cons t ts)
  show ?case
    using store_part_trans [OF Cons.IH [of "snd (tag_step cfg k t st)"] store_part_tag_step [OF assms]]
      store_part_tag_step [OF assms, of k t st]
    by (auto split: prod.splits option.splits)
qed

lemma store_part_advance:
  assumes "adapter cfg = MemoryAdapter"
  shows "store_part (snd (advance cfg p st)) st"
proof (cases p)
  case (AwaitGet k it r1)
  with assms show ?thesis
    by (intro store_part_removed [where k = k]) (simp add: send_def MemoryAdapter_def)
next
  case (AwaitDelete k it v r2)
  then show ?thesis
    by (intro store_part_same) (cases r2; simp add: finish_def emit_error_def)
qed

lemma store_part_resume:
  assumes "adapter cfg = MemoryAdapter"
  shows "store_part (resume cfg i st) st"
proof -
  have "store_part (st'\<lparr>pending := ps\<rparr>) st" if "advance cfg p st = (q, st')" for p q st' ps
  proof -
    from store_part_advance [OF assms, of p st] that have "store_part st' st" by simp
    then show ?thesis by (simp add: store_part_def)
  qed
  then show ?thesis
    by (auto simp: resume_def Let_def store_part_refl split: prod.splits option.splits)
qed

lemma store_part_resumes:
  assumes "adapter cfg = MemoryAdapter"
  shows "store_part (resumes cfg is st) st"
proof (induction "is" arbitrary: st)
  case Nil
  show ?case by (simp add: store_part_refl)
next
  case (Cons i "is")
  have "resumes cfg (i # is) st = resumes cfg is (resume cfg i st)"
    by (simp add: resumes_def)
  then show ?case
    using store_part_trans [OF Cons.IH [of "resume cfg i st"] store_part_resume [OF assms]] by simp
qed

lemma store_part_lookup:
  assumes "store_part st' st"
  shows "map_of (storage st') k = None \<or> map_of (storage st') k = map_of (storage st) k"
  using assms unfolding store_part_def by (auto simp: map_of_filter_keys)

lemma part_of_sync_key:
  assumes "part_of st' st" "map_of (accessOrder st) k \<noteq> None \<longrightarrow> map_of (cache st) k \<noteq> None"
    "map_of (cache st') k = None"
  shows "map_of (accessOrder st') k = None"
  using assms unfolding part_of_def by (auto simp: map_of_filter_keys split: if_splits)

lemma stored_undefined:
  assumes mem: "adapter cfg = MemoryAdapter" and ser: "serialize cfg v = Inr Undefined"
    and ok: "set_body cfg sch now k v ttl ts c st = (Inr RThis, st1)"
  shows "(case map_of (storage st1) k of None \<Rightarrow> Undefined | Some x \<Rightarrow> x) = Undefined"
    "map_of (cache st1) k = None \<longrightarrow> map_of (accessOrder st1) k = None"
proof -
  from ok obtain r s sv where w: "serialize cfg v = Inr sv"
    "ad_set (adapter cfg) (storage (set_prepare cfg sch k st)) k sv = (r, s)"
    "set_store cfg now k v (resolve_ttl cfg ttl) ts
       (resumes cfg (at_write sch) ((set_prepare cfg sch k st)\<lparr>storage := s\<rparr>)) = (None, st1)"
    by (rule set_body_written)
  from w(1,2) ser mem have s: "s = AList.update k Undefined (storage (set_prepare cfg sch k st))"
    by (simp add: MemoryAdapter_def)
  let ?w = "resumes cfg (at_write sch) ((set_prepare cfg sch k st)\<lparr>storage := s\<rparr>)"
  let ?i = "insert_entry now k (resolve_ttl cfg ttl) ts ?w"
  from set_store_success [OF w(3)] obtain st2 where
    t: "tag_loop cfg k ts ?i = (None, st2)"
    and e: "st1 = emit (EvSet k v) (count_set cfg (arm_timer k v (resolve_ttl cfg ttl) st2))"
    by blast
  have "map_of (storage ((set_prepare cfg sch k st)\<lparr>storage := s\<rparr>)) k = Some Undefined"
    by (simp add: s AList.update_conv')
  with store_part_lookup [OF store_part_resumes [OF mem], of "at_write sch"
      "(set_prepare cfg sch k st)\<lparr>storage := s\<rparr>" k]
  have "map_of (storage ?i) k = None \<or> map_of (storage ?i) k = Some Undefined"
    by simp
  with store_part_lookup [OF store_part_tag_loop [OF mem], of k ts ?i k] t
  have "map_of (storage st2) k = None \<or> map_of (storage st2) k = Some Undefined"
    by auto
  then show "(case map_of (storage st1) k of None \<Rightarrow> Undefined | Some x \<Rightarrow> x) = Undefined"
    unfolding e by auto
  have "map_of (cache ?i) k \<noteq> None" by (simp add: AList.update_conv')
  then have "map_of (accessOrder ?i) k \<noteq> None \<longrightarrow> map_of (cache ?i) k \<noteq> None" by simp
  from part_of_sync_key [OF part_of_tag_loop this, of cfg k ts] t
  show "map_of (cache st1) k = None \<longrightarrow> map_of (accessOrder st1) k = None"
    unfolding e by simp
qed

subsection \<open>Conditional write\<close>

text \<open>
  C8. A \<open>set\<close> whose condition predicate is present and evaluates to false on the key and
  the value returns \<open>false\<close> and leaves the whole engine as it was: metadata, access
  order, tag index, timers, storage, statistics and the notification log.
\<close>

theorem set_condition_false_noop:
  assumes "c k v = Inr False"
  shows "set_op cfg sch now k v ttl ts (Some c) st = (Inr RFalse, st)"
  using assms by (simp add: set_op_def set_body_def set_until_write_def caught_def)

theorem set_condition_false_noop_witness:
  "(\<lambda>k v. Inr (v = JNum 2)) ''a'' (JNum 1) = (Inr False :: exn + bool) \<and>
   set_op (memory_options no_raw) prompt (clock_at 5) ''a'' (JNum 1) (Some 100) [''t'']
     (Some (\<lambda>k v. Inr (v = JNum 2))) (new_engine []) = (Inr RFalse, new_engine [])"
  using set_condition_false_noop [of "\<lambda>k v. Inr (v = JNum 2)" "''a''" "JNum 1"]
  by simp

subsection \<open>The result of delete\<close>

lemma delete_never_returns_false: "fst (delete cfg k st) \<noteq> Inr RFalse"
  by (cases rule: delete_cases [of st k cfg]) simp_all

lemma delete_absent_changes_nothing:
  "map_of (cache st) k = None \<Longrightarrow> delete cfg k st = (Inr RThis, st)"
  by (simp add: delete_def delete_body_def caught_def)

text \<open>
  C1. The claim: \<open>delete\<close> returns true when the key was present and false when it was
  absent. The method is documented \<open>@returns {boolean} Success status\<close> and ends in
  \<open>return this\<close> on every path: on the in-memory backend, deleting the present key \<open>a\<close>
  removes it and returns the engine, and deleting it again returns the engine too (and
  emits nothing).
\<close>

theorem delete_returns_engine_not_boolean:
  "(let cfg = memory_options no_raw;
        st1 = snd (awaited_set cfg prompt (clock_at 0) ''a'' (JNum 1) None [] None (new_engine []));
        (r1, st2) = delete cfg ''a'' st1;
        (r2, st3) = delete cfg ''a'' st2
    in map_of (cache st1) ''a'' \<noteq> None \<and> r1 = Inr RThis \<and> map_of (cache st2) ''a'' = None
       \<and> r2 = Inr RThis \<and> emitted st3 = emitted st2)"
  by code_simp

subsection \<open>Sliding expiration\<close>

text \<open>
  C2. The claim: with \<open>slidingTTL\<close>, every hit renews the entry for the original TTL.
  \<open>get\<close> takes \<open>expiresAt - createdAt\<close> for that duration and moves \<open>expiresAt\<close> without
  moving \<open>createdAt\<close>, so the duration grows from the second hit on: an entry written at
  time 0 with a TTL of 200 and read at 150 is renewed for 200 (until 350); read again at
  300, it is renewed for 350 (until 650, timer of 350) instead of 200 (until 500).
\<close>

theorem sliding_ttl_grows_on_second_read:
  "(let cfg = memory_options (no_raw\<lparr>raw_slidingTTL := Some True\<rparr>);
        st1 = snd (awaited_set cfg prompt (clock_at 0) ''k'' (JNum 1) (Some 200) [] None
                     (new_engine []));
        (v2, st2) = get cfg (clock_at 150) ''k'' st1;
        (v3, st3) = get cfg (clock_at 300) ''k'' st2
    in v2 = Inr (JNum 1) \<and> v3 = Inr (JNum 1)
       \<and> map_option expiresAt (map_of (cache st2) ''k'') = Some (Some 350)
       \<and> map_option delay (map_of (timers st2) ''k'') = Some 200
       \<and> map_option expiresAt (map_of (cache st3) ''k'') = Some (Some 650)
       \<and> map_option delay (map_of (timers st3) ''k'') = Some 350)"
  by code_simp

subsection \<open>The tag index\<close>

text \<open>
  C3. The claim: every operation keeps the tag index exact (\<open>tag_index_ok\<close>). \<open>delete\<close>
  removes the key from its buckets; \<open>clear\<close>, the purge of \<open>get\<close> and of \<open>has\<close> (metadata
  present, backend value absent) and the failure branch of \<open>set\<close> do not restore that.
  After \<open>set(k, 1, null, [t])\<close>, \<open>clear()\<close> leaves \<open>k\<close> in the bucket of \<open>t\<close> with no
  metadata, and so does \<open>has(k)\<close> on a backend that lost \<open>k\<close>; after
  \<open>set(u, undefined, null, [t])\<close>, \<open>get(u)\<close> purges the metadata of \<open>u\<close> and leaves \<open>u\<close> in
  the bucket; a second \<open>set\<close> of \<open>k\<close> whose serialization throws leaves the metadata tagged
  \<open>t\<close> and the bucket gone.
\<close>

theorem tag_index_broken_by_purge_and_clear:
  "(let cfg = memory_options no_raw;
        st1 = snd (awaited_set cfg prompt (clock_at 0) ''k'' (JNum 1) None [''t''] None
                     (new_engine []));
        st2 = snd (clear cfg st1);
        stu = snd (awaited_set cfg prompt (clock_at 0) ''u'' Undefined None [''t''] None
                     (new_engine []));
        st3 = snd (get cfg (clock_at 1) ''u'' stu);
        st4 = snd (has cfg (clock_at 1) ''k'' (st1\<lparr>storage := []\<rparr>));
        st5 = snd (awaited_set (cfg\<lparr>serialize := (\<lambda>v. Inl (Error ''cyclic''))\<rparr>) prompt
                     (clock_at 2) ''k'' (JNum 2) None [''t''] None st1)
    in tag_index_ok st1 \<and> tag_index_ok stu
       \<and> \<not> tag_index_ok st2 \<and> cache st2 = [] \<and> tagsMap st2 = [(''t'', [''k''])]
       \<and> \<not> tag_index_ok st3 \<and> cache st3 = [] \<and> tagsMap st3 = [(''t'', [''u''])]
       \<and> \<not> tag_index_ok st4 \<and> cache st4 = [] \<and> tagsMap st4 = [(''t'', [''k''])]
       \<and> \<not> tag_index_ok st5 \<and> map_option tags (map_of (cache st5) ''k'') = Some [''t'']
       \<and> tagsMap st5 = [])"
  by code_simp

subsection \<open>TTL resolution\<close>




subsection \<open>LRU victim selection\<close>



text \<open>
  The deletion that an eviction starts outlives a \<open>set\<close> that fails. On the in-memory
  backend, when \<open>serialize\<close> throws in a \<open>set\<close> that has evicted, the notifications come
  in the order \<open>evicted\<close>, \<open>error\<close>, \<open>delete\<close>: \<open>set\<close> settles (it rejects, no listener
  being registered) with the victim still in \<open>cache\<close>, and the victim goes one turn of
  the queue later, though nothing was inserted.
\<close>

lemma eviction_outlives_failed_set:
  "(let cfg = (memory_options (no_raw\<lparr>raw_maxSize := Some 2\<rparr>))
                \<lparr>serialize := (\<lambda>v. if v = JNum 3 then Inl (Error ''cyclic'') else Inr v)\<rparr>;
        (r, st) = set_op cfg prompt (clock_at 3) ''c'' (JNum 3) None [] None full_example;
        st' = resumes cfg (at_settle prompt) st
    in r = Inl (Error ''cyclic'')
       \<and> emitted st = [EvSet ''a'' (JNum 1), EvSet ''b'' (JNum 2), EvEvicted ''a'' Undefined,
                        EvError (Error ''cyclic'')]
       \<and> map fst (cache st) = [''a'', ''b''] \<and> length (pending st) = 1
       \<and> emitted st' = emitted st @ [EvDelete ''a'' (JNum 1)]
       \<and> map fst (cache st') = [''b''] \<and> pending st' = [])"
  unfolding full_example_def by code_simp

subsection \<open>Capacity\<close>






text \<open>
  What the bound needs. Calls that are awaited: the four \<open>set\<close>s of \<open>examples/basic.js\<close>
  are not, each tests the capacity before any of them has inserted, and an engine
  configured with \<open>maxSize = 3\<close> ends with four entries and no eviction.
\<close>

lemma capacity_needs_awaited_calls:
  "maxSize (memory_options (no_raw\<lparr>raw_maxSize := Some 3\<rparr>)) = 3
   \<and> map fst (cache unawaited_example) = [''item1'', ''item2'', ''item3'', ''item4'']
   \<and> evictions (stats unawaited_example) = 0"
  unfolding unawaited_example_def by code_simp

text \<open>
  A backend that settles at once: \<open>_evictLRU\<close> does not await the deletion it starts, so
  when the backend's \<open>get\<close> has not settled by the time \<open>set\<close> has inserted (the schedule
  \<open>late\<close>), the awaited \<open>set\<close> of a third key leaves three entries in an engine configured
  with \<open>maxSize = 2\<close>, and the deletion unfinished.
\<close>

lemma capacity_needs_prompt_backend:
  "(let cfg = memory_options (no_raw\<lparr>raw_maxSize := Some 2\<rparr>);
        st = snd (awaited_set cfg late (clock_at 3) ''c'' (JNum 3) None [] None full_example)
    in maxSize cfg = 2 \<and> map fst (cache st) = [''a'', ''b'', ''c'']
       \<and> length (pending st) = 1
       \<and> emitted st = [EvSet ''a'' (JNum 1), EvSet ''b'' (JNum 2), EvEvicted ''a'' Undefined,
                        EvSet ''c'' (JNum 3)])"
  unfolding full_example_def by code_simp

text \<open>A backend whose \<open>delete\<close> returns: when it throws, the victim stays.\<close>

lemma capacity_needs_working_delete:
  "(let cfg = (memory_options (no_raw\<lparr>raw_maxSize := Some 1\<rparr>))
                \<lparr>adapter := MemoryAdapter\<lparr>ad_delete := (\<lambda>s k. (Inl (Error ''offline''), s))\<rparr>\<rparr>;
        st1 = snd (awaited_set cfg prompt (clock_at 0) ''a'' (JNum 1) None [] None (new_engine []));
        st2 = snd (awaited_set cfg prompt (clock_at 1) ''b'' (JNum 2) None [] None st1)
    in maxSize cfg = 1 \<and> map fst (cache st2) = [''a'', ''b'']
       \<and> emitted st2 = [EvSet ''a'' (JNum 1), EvEvicted ''a'' Undefined,
                         EvError (Error ''offline''), EvSet ''b'' (JNum 2)]
       \<and> unhandled st2 = [Error ''offline''])"
  by code_simp

text \<open>Non-empty keys: \<open>if (oldestKey)\<close> takes the empty string for no victim.\<close>

lemma capacity_needs_nonempty_keys:
  "(let cfg = memory_options (no_raw\<lparr>raw_maxSize := Some 1\<rparr>);
        st1 = snd (awaited_set cfg prompt (clock_at 0) '''' (JNum 1) None [] None (new_engine []));
        st2 = snd (awaited_set cfg prompt (clock_at 1) ''b'' (JNum 2) None [] None st1)
    in maxSize cfg = 1 \<and> map fst (cache st2) = ['''', ''b''])"
  by code_simp

text \<open>The ceiling is reached: an engine configured with \<open>maxSize = 2.5\<close> holds three entries.\<close>

lemma capacity_of_fractional_maxSize:
  "(let cfg = memory_options (no_raw\<lparr>raw_maxSize := Some (5 / 2)\<rparr>);
        st = run cfg [CallSet prompt (clock_at 1) ''a'' (JNum 1) None [] None,
                      CallSet prompt (clock_at 2) ''b'' (JNum 2) None [] None,
                      CallSet prompt (clock_at 3) ''c'' (JNum 3) None [] None,
                      CallSet prompt (clock_at 4) ''d'' (JNum 4) None [] None] (new_engine [])
    in map fst (cache st) = [''b'', ''c'', ''d''] \<and> evictions (stats st) = 1)"
  by code_simp

subsection \<open>Hit rate\<close>

text \<open>
  C9, as amended. The snapshot's \<open>hitRate\<close> is \<open>hits / (hits + misses)\<close> of its own
  counters, and \<open>0\<close> when both are \<open>0\<close>. With statistics enabled, after any sequence of
  calls since the last reset in which \<open>H\<close> lookups returned a value and \<open>M\<close> lookups
  returned \<open>undefined\<close> (a lookup that rejects is neither), the counters are \<open>H\<close> and \<open>M\<close>
  and \<open>hitRate\<close> is \<open>H / (H + M)\<close>. With \<open>enableStats: false\<close> the counters stay \<open>0\<close> and
  \<open>hitRate\<close> is \<open>0\<close> whatever was looked up.
\<close>

theorem hit_rate:
  "hitRate (getStats st) =
     (if hits (stats st) + misses (stats st) = 0 then Fin 0
      else Fin (of_nat (hits (stats st)) / of_nat (hits (stats st) + misses (stats st))))
   \<and> (enableStats cfg \<longrightarrow>
        hits (stats (run cfg cs (resetStats st))) = hits_of cfg cs (resetStats st)
      \<and> misses (stats (run cfg cs (resetStats st))) = misses_of cfg cs (resetStats st)
      \<and> hitRate (getStats (run cfg cs (resetStats st))) =
          (if hits_of cfg cs (resetStats st) + misses_of cfg cs (resetStats st) = 0 then Fin 0
           else Fin (of_nat (hits_of cfg cs (resetStats st))
                     / of_nat (hits_of cfg cs (resetStats st) + misses_of cfg cs (resetStats st)))))
   \<and> (\<not> enableStats cfg \<longrightarrow>
        hits (stats (run cfg cs (resetStats st))) = 0
      \<and> misses (stats (run cfg cs (resetStats st))) = 0
      \<and> hitRate (getStats (run cfg cs (resetStats st))) = Fin 0)"
proof -
  have z: "hits (stats (resetStats st)) = 0" "misses (stats (resetStats st)) = 0"
    by (simp_all add: resetStats_def no_stats_def)
  show ?thesis
    using run_counters [of cfg cs "resetStats st"] z
    by (simp add: hit_rate_formula)
qed

theorem hit_rate_witness:
  "enableStats (memory_options no_raw)
   \<and> hits_of (memory_options no_raw) stats_example (resetStats (new_engine [])) = 2
   \<and> misses_of (memory_options no_raw) stats_example (resetStats (new_engine [])) = 2
   \<and> hits (stats (run (memory_options no_raw) stats_example (resetStats (new_engine [])))) = 2
   \<and> misses (stats (run (memory_options no_raw) stats_example (resetStats (new_engine [])))) = 2
   \<and> hitRate (getStats (run (memory_options no_raw) stats_example (resetStats (new_engine []))))
       = Fin (1 / 2)
   \<and> \<not> enableStats (memory_options (no_raw\<lparr>raw_enableStats := Some False\<rparr>))
   \<and> hits (stats (run (memory_options (no_raw\<lparr>raw_enableStats := Some False\<rparr>)) stats_example
                     (resetStats (new_engine [])))) = 0
   \<and> misses (stats (run (memory_options (no_raw\<lparr>raw_enableStats := Some False\<rparr>)) stats_example
                       (resetStats (new_engine [])))) = 0
   \<and> hitRate (getStats (run (memory_options (no_raw\<lparr>raw_enableStats := Some False\<rparr>))
                           stats_example (resetStats (new_engine [])))) = Fin 0"
proof -
  let ?cfg = "memory_options no_raw"
  let ?off = "memory_options (no_raw\<lparr>raw_enableStats := Some False\<rparr>)"
  have e: "enableStats ?cfg" by code_simp
  have d: "\<not> enableStats ?off" by code_simp
  have h: "hits_of ?cfg stats_example (resetStats (new_engine [])) = 2"
    unfolding stats_example_def by code_simp
  have m: "misses_of ?cfg stats_example (resetStats (new_engine [])) = 2"
    unfolding stats_example_def by code_simp
  from hit_rate [of "new_engine []" ?cfg stats_example]
    hit_rate [of "new_engine []" ?off stats_example] e d h m
  show ?thesis by simp
qed

text \<open>
  The claim as stated fails with \<open>enableStats: false\<close>: after two lookups that returned
  a value and two that returned \<open>undefined\<close>, the snapshot reports \<open>hitRate = 0\<close>, not
  \<open>1 / 2\<close>.
\<close>

theorem hit_rate_zero_when_stats_disabled:
  "(let cfg = memory_options (no_raw\<lparr>raw_enableStats := Some False\<rparr>);
        st = run cfg stats_example (new_engine [])
    in hits_of cfg stats_example (new_engine []) = 2
       \<and> misses_of cfg stats_example (new_engine []) = 2
       \<and> hits (getStats st) = 0 \<and> misses (getStats st) = 0
       \<and> hitRate (getStats st) = Fin 0)"
  unfolding stats_example_def by code_simp

subsection \<open>A value serialized to undefined\<close>

lemma delete_memory_present:
  assumes "adapter cfg = MemoryAdapter" "map_of (cache st) k = Some it"
  shows "fst (delete cfg k st) = Inr RThis"
    "map_of (cache (snd (delete cfg k st))) k = None"
    "map_of (accessOrder (snd (delete cfg k st))) k = None"
proof -
  have "fst (delete cfg k st) = Inr RThis
      \<and> map_of (cache (snd (delete cfg k st))) k = None
      \<and> map_of (accessOrder (snd (delete cfg k st))) k = None"
  proof (cases rule: delete_cases [of st k cfg])
    case absent
    with assms(2) show ?thesis by simp
  next
    case (failed it' e s)
    with assms(1) show ?thesis by (simp add: MemoryAdapter_def)
  next
    case (removed it' v s b)
    then show ?thesis by (simp add: AList.delete_conv')
  qed
  then show "fst (delete cfg k st) = Inr RThis"
    "map_of (cache (snd (delete cfg k st))) k = None"
    "map_of (accessOrder (snd (delete cfg k st))) k = None"
    by simp_all
qed

text \<open>
  C10. On the in-memory backend, after a \<open>set\<close> that stored a value whose serialization
  is \<open>undefined\<close>, \<open>get\<close> of that key returns \<open>undefined\<close>, counts no hit and one miss (when
  statistics are enabled), and leaves neither metadata nor an \<open>accessOrder\<close> entry for
  the key.
\<close>

theorem undefined_value_never_hits:
  assumes mem: "adapter cfg = MemoryAdapter" and ser: "serialize cfg v = Inr Undefined"
    and ok: "set_body cfg sch now k v ttl ts c st = (Inr RThis, st1)"
  shows "fst (get cfg now' k st1) = Inr Undefined
       \<and> map_of (cache (snd (get cfg now' k st1))) k = None
       \<and> map_of (accessOrder (snd (get cfg now' k st1))) k = None
       \<and> hits (stats (snd (get cfg now' k st1))) = hits (stats st1)
       \<and> misses (stats (snd (get cfg now' k st1))) =
           misses (stats st1) + (if enableStats cfg then 1 else 0)"
proof -
  note su = stored_undefined [OF mem ser ok]
  have raw: "ad_get (adapter cfg) (storage st1) k = (Inr Undefined, storage st1)"
    using su(1) mem by (simp add: MemoryAdapter_def)
  have res: "fst (get cfg now' k st1) = Inr Undefined
       \<and> map_of (cache (snd (get cfg now' k st1))) k = None
       \<and> map_of (accessOrder (snd (get cfg now' k st1))) k = None"
  proof (cases "map_of (cache st1) k")
    case None
    with su(2) show ?thesis
      by (simp add: get_def get_body_def)
  next
    case (Some it)
    show ?thesis
    proof (cases "is_expired it (now' 0)")
      case True
      have c: "map_of (cache (count_access cfg st1)) k = Some it" using Some by simp
      obtain r st2 where d: "delete cfg k (count_access cfg st1) = (r, st2)"
        by (cases "delete cfg k (count_access cfg st1)")
      from delete_memory_present [OF mem c] d
      have r: "r = Inr RThis" "map_of (cache st2) k = None" "map_of (accessOrder st2) k = None"
        by simp_all
      have "get cfg now' k st1 = (Inr Undefined, count_miss cfg st2)"
        using Some True d r(1) by (simp add: get_def get_body_def)
      with r show ?thesis by simp
    next
      case False
      with Some raw show ?thesis
        by (simp add: get_def get_body_def get_value_def AList.delete_conv')
    qed
  qed
  with get_counters(1,2) [of cfg now' k st1] show ?thesis by simp
qed

theorem undefined_value_never_hits_witness:
  "(let cfg = memory_options no_raw;
        st1 = snd (set_op cfg prompt (clock_at 1) ''u'' Undefined None [''t''] None (new_engine []));
        r = get cfg (clock_at 2) ''u'' st1
    in adapter cfg = MemoryAdapter \<and> serialize cfg Undefined = Inr Undefined
       \<and> set_body cfg prompt (clock_at 1) ''u'' Undefined None [''t''] None (new_engine [])
           = (Inr RThis, st1)
       \<and> map_of (cache st1) ''u'' \<noteq> None
       \<and> fst r = Inr Undefined \<and> map_of (cache (snd r)) ''u'' = None
       \<and> map_of (accessOrder (snd r)) ''u'' = None
       \<and> hits (stats (snd r)) = 0 \<and> misses (stats (snd r)) = 1)"
proof -
  let ?cfg = "memory_options no_raw"
  let ?st1 = "snd (set_op ?cfg prompt (clock_at 1) ''u'' Undefined None [''t''] None (new_engine []))"
  have mem: "adapter ?cfg = MemoryAdapter" by simp
  have ser: "serialize ?cfg Undefined = Inr Undefined"
    by (simp add: memory_options_def constructor_def)
  have ok: "set_body ?cfg prompt (clock_at 1) ''u'' Undefined None [''t''] None (new_engine [])
              = (Inr RThis, ?st1)"
    by code_simp
  have pre: "map_of (cache ?st1) ''u'' \<noteq> None" "hits (stats ?st1) = 0" "misses (stats ?st1) = 0"
    "enableStats ?cfg"
    by code_simp+
  from undefined_value_never_hits [OF mem ser ok, of "clock_at 2"] mem ser ok pre
  show ?thesis by (simp add: Let_def)
qed

subsection \<open>Backend errors\<close>

lemma set_write_failed:
  assumes p: "passes c k v" and ser: "serialize cfg v = Inr sv"
    and w: "ad_set (adapter cfg) (storage (set_prepare cfg sch k st)) k sv = (Inl e, s1)"
  shows "set_op cfg sch now k v ttl ts c st
           = ((if errorListener st then Inr RThis else Inl e),
              emit (EvError e) (resumes cfg (at_write sch) ((set_prepare cfg sch k st)\<lparr>storage := s1\<rparr>)))"
    "map_of (cache st) k = None \<longrightarrow> map_of (cache (snd (set_op cfg sch now k v ttl ts c st))) k = None"
proof -
  let ?w = "resumes cfg (at_write sch) ((set_prepare cfg sch k st)\<lparr>storage := s1\<rparr>)"
  have u: "set_until_write cfg sch k v c st
             = (Written (Inl e), (set_prepare cfg sch k st)\<lparr>storage := s1\<rparr>)"
    using p ser w by (cases rule: set_until_write_cases [of cfg sch k v c st]) simp_all
  have part: "part_of ?w st"
    by (rule part_of_trans [OF part_of_resumes part_of_trans [OF part_of_storage part_of_set_prepare]])
  have l: "errorListener ?w = errorListener st"
    by (rule part_of_listener [OF part])
  show 1: "set_op cfg sch now k v ttl ts c st
           = ((if errorListener st then Inr RThis else Inl e), emit (EvError e) ?w)"
    using l by (simp add: set_op_def set_body_def u set_after_write_def caught_def emit_error_def)
  show "map_of (cache st) k = None \<longrightarrow> map_of (cache (snd (set_op cfg sch now k v ttl ts c st))) k = None"
    unfolding 1 using part_of_cache_lookup [OF part, of k] by auto
qed

text \<open>
  C4, as amended. With a listener registered for \<open>error\<close>, \<open>get\<close>, \<open>set\<close> and \<open>delete\<close> never
  reject, for every storage adapter. An exception of the backend's \<open>get\<close> inside \<open>get\<close>,
  of the backend's \<open>set\<close> inside \<open>set\<close> and of the backend's \<open>delete\<close> inside \<open>delete\<close> is
  caught and notified as \<open>error\<close>; nothing is inserted, respectively removed. If a
  listener is registered, \<open>get\<close> then counts a miss and returns \<open>undefined\<close>, and \<open>set\<close>
  and \<open>delete\<close> return; if none is registered, which is the state of a new engine, the
  \<open>emit('error', e)\<close> of the \<open>catch\<close> block throws \<open>e\<close>: the method rejects with the
  backend's error, and \<open>get\<close> does not count the miss. An exception of the backend's
  \<open>get\<close> inside \<open>delete\<close> is swallowed without a notification: the deletion goes on and
  its \<open>delete\<close> notification carries \<open>null\<close>.
\<close>

theorem backend_errors_are_caught:
  "(errorListener st \<longrightarrow>
      (\<exists>x. fst (get cfg now k st) = Inr x)
      \<and> (\<exists>r. fst (set_op cfg sch now k v ttl ts c st) = Inr r)
      \<and> fst (delete cfg k st) = Inr RThis)
   \<and> (map_of (cache st) k = Some it \<and> \<not> is_expired it (now 0)
      \<and> ad_get (adapter cfg) (storage st) k = (Inl e, s1)
    \<longrightarrow> get cfg now k st
          = (if errorListener st
             then (Inr Undefined,
                   count_miss cfg (emit (EvError e) ((count_access cfg st)\<lparr>storage := s1\<rparr>)))
             else (Inl e, emit (EvError e) ((count_access cfg st)\<lparr>storage := s1\<rparr>))))
   \<and> (passes c k v \<and> serialize cfg v = Inr sv
      \<and> ad_set (adapter cfg) (storage (set_prepare cfg sch k st)) k sv = (Inl e, s1)
    \<longrightarrow> set_op cfg sch now k v ttl ts c st
          = ((if errorListener st then Inr RThis else Inl e),
             emit (EvError e)
               (resumes cfg (at_write sch) ((set_prepare cfg sch k st)\<lparr>storage := s1\<rparr>)))
        \<and> (map_of (cache st) k = None
           \<longrightarrow> map_of (cache (snd (set_op cfg sch now k v ttl ts c st))) k = None))
   \<and> (map_of (cache st) k = Some it
      \<and> ad_delete (adapter cfg) (snd (ad_get (adapter cfg) (storage st) k)) k = (Inl e, s2)
    \<longrightarrow> delete cfg k st
          = ((if errorListener st then Inr RThis else Inl e), emit (EvError e) (st\<lparr>storage := s2\<rparr>)))
   \<and> (map_of (cache st) k = Some it
      \<and> ad_get (adapter cfg) (storage st) k = (Inl e, s1)
      \<and> ad_delete (adapter cfg) s1 k = (Inr b, s2)
    \<longrightarrow> fst (delete cfg k st) = Inr RThis
        \<and> emitted (snd (delete cfg k st)) = emitted st @ [EvDelete k JNull]
        \<and> map_of (cache (snd (delete cfg k st))) k = None)"
proof -
  have l: "(\<exists>x. fst (get cfg now k st) = Inr x)
      \<and> (\<exists>r. fst (set_op cfg sch now k v ttl ts c st) = Inr r)
      \<and> fst (delete cfg k st) = Inr RThis"
    if "errorListener st"
    using get_listened [OF that] set_op_listened [OF that] delete_listened [OF that] by blast
  have g: "get cfg now k st
          = (if errorListener st
             then (Inr Undefined,
                   count_miss cfg (emit (EvError e) ((count_access cfg st)\<lparr>storage := s1\<rparr>)))
             else (Inl e, emit (EvError e) ((count_access cfg st)\<lparr>storage := s1\<rparr>)))"
    if "map_of (cache st) k = Some it" "\<not> is_expired it (now 0)"
      "ad_get (adapter cfg) (storage st) k = (Inl e, s1)"
    using that by (simp add: get_def get_body_def emit_error_def)
  have s: "set_op cfg sch now k v ttl ts c st
          = ((if errorListener st then Inr RThis else Inl e),
             emit (EvError e)
               (resumes cfg (at_write sch) ((set_prepare cfg sch k st)\<lparr>storage := s1\<rparr>)))
        \<and> (map_of (cache st) k = None
           \<longrightarrow> map_of (cache (snd (set_op cfg sch now k v ttl ts c st))) k = None)"
    if "passes c k v" "serialize cfg v = Inr sv"
      "ad_set (adapter cfg) (storage (set_prepare cfg sch k st)) k sv = (Inl e, s1)"
    using set_write_failed [OF that] by blast
  have d: "delete cfg k st
          = ((if errorListener st then Inr RThis else Inl e), emit (EvError e) (st\<lparr>storage := s2\<rparr>))"
    if "map_of (cache st) k = Some it"
      "ad_delete (adapter cfg) (snd (ad_get (adapter cfg) (storage st) k)) k = (Inl e, s2)"
    using that
    by (cases "ad_get (adapter cfg) (storage st) k")
       (simp add: delete_def delete_body_def caught_def emit_error_def)
  have q: "fst (delete cfg k st) = Inr RThis
        \<and> emitted (snd (delete cfg k st)) = emitted st @ [EvDelete k JNull]
        \<and> map_of (cache (snd (delete cfg k st))) k = None"
    if "map_of (cache st) k = Some it" "ad_get (adapter cfg) (storage st) k = (Inl e, s1)"
      "ad_delete (adapter cfg) s1 k = (Inr b, s2)"
    using that
    by (simp add: delete_def delete_body_def caught_def event_value_def AList.delete_conv')
  from l g s d q show ?thesis by blast
qed

theorem backend_errors_are_caught_witness:
  "(let st = on_error (snd (awaited_set (memory_options no_raw) prompt (clock_at 1) ''a'' (JNum 1)
                              None [] None (new_engine [])))
    in errorListener st
       \<and> map_option expiresAt (map_of (cache st) ''a'') = Some None
       \<and> ad_get (adapter offline_options) (storage st) ''a'' = (Inl (Error ''offline''), storage st)
       \<and> fst (get offline_options (clock_at 2) ''a'' st) = Inr Undefined
       \<and> emitted (snd (get offline_options (clock_at 2) ''a'' st))
           = [EvSet ''a'' (JNum 1), EvError (Error ''offline'')]
       \<and> misses (stats (snd (get offline_options (clock_at 2) ''a'' st))) = 1
       \<and> fst (set_op offline_options prompt (clock_at 2) ''b'' (JNum 2) None [] None st) = Inr RThis
       \<and> emitted (snd (set_op offline_options prompt (clock_at 2) ''b'' (JNum 2) None [] None st))
           = [EvSet ''a'' (JNum 1), EvError (Error ''offline'')]
       \<and> map_of (cache (snd (set_op offline_options prompt (clock_at 2) ''b'' (JNum 2) None [] None
                                st))) ''b'' = None
       \<and> fst (delete offline_options ''a'' st) = Inr RThis
       \<and> emitted (snd (delete offline_options ''a'' st))
           = [EvSet ''a'' (JNum 1), EvError (Error ''offline'')]
       \<and> map_of (cache (snd (delete offline_options ''a'' st))) ''a'' \<noteq> None
       \<and> ad_delete (adapter unreadable_options) (storage st) ''a'' = (Inr True, [])
       \<and> fst (delete unreadable_options ''a'' st) = Inr RThis
       \<and> emitted (snd (delete unreadable_options ''a'' st))
           = [EvSet ''a'' (JNum 1), EvDelete ''a'' JNull]
       \<and> map_of (cache (snd (delete unreadable_options ''a'' st))) ''a'' = None)"
proof -
  define st where "st = on_error (snd (awaited_set (memory_options no_raw) prompt (clock_at 1)
                                         ''a'' (JNum 1) None [] None (new_engine [])))"
  define it where "it = \<lparr>createdAt = 1, expiresAt = None, accessCount = 0, tags = []\<rparr>"
  have it: "map_of (cache st) ''a'' = Some it"
    unfolding st_def it_def by code_simp
  have ex: "\<not> is_expired it (clock_at 2 0)" "expiresAt it = None"
    by (simp_all add: is_expired_def it_def)
  have sto: "storage st = [(''a'', JNum 1)]" "emitted st = [EvSet ''a'' (JNum 1)]"
    "misses (stats st) = 0" "map_of (cache st) ''b'' = None" "errorListener st" "pending st = []"
    unfolding st_def by code_simp+
  have e: "map_of (cache st) ''b'' \<noteq> None \<or> of_nat (length (cache st)) < maxSize offline_options"
    unfolding st_def by code_simp
  note prep = set_prepare_no_eviction [OF e, of prompt]
  have en: "enableStats offline_options" by code_simp
  have g: "ad_get (adapter offline_options) (storage st) ''a'' = (Inl (Error ''offline''), storage st)"
    by (simp add: offline_options_def constructor_def)
  have s: "passes None ''b'' (JNum 2)" "serialize offline_options (JNum 2) = Inr (JNum 2)"
    "ad_set (adapter offline_options) (storage (set_prepare offline_options prompt ''b'' st)) ''b''
       (JNum 2) = (Inl (Error ''offline''), storage st)"
    unfolding prep(5) by (simp_all add: passes_def offline_options_def constructor_def)
  have d: "ad_delete (adapter offline_options)
             (snd (ad_get (adapter offline_options) (storage st) ''a'')) ''a''
           = (Inl (Error ''offline''), storage st)"
    by (simp add: offline_options_def constructor_def)
  have u: "ad_get (adapter unreadable_options) (storage st) ''a''
             = (Inl (Error ''read failed''), storage st)"
    "ad_delete (adapter unreadable_options) (storage st) ''a'' = (Inr True, [])"
    by (simp_all add: unreadable_options_def constructor_def MemoryAdapter_def sto)
  have r1: "get offline_options (clock_at 2) ''a'' st
           = (Inr Undefined,
              count_miss offline_options
                (emit (EvError (Error ''offline''))
                   ((count_access offline_options st)\<lparr>storage := storage st\<rparr>)))"
    using backend_errors_are_caught [where cfg = offline_options and st = st and k = "''a''"
      and it = it and now = "clock_at 2" and e = "Error ''offline''" and ?s1.0 = "storage st"]
      it ex(1) g sto(5)
    by simp
  have r2: "set_op offline_options prompt (clock_at 2) ''b'' (JNum 2) None [] None st
          = (Inr RThis,
             emit (EvError (Error ''offline''))
               (resumes offline_options (at_write prompt)
                  ((set_prepare offline_options prompt ''b'' st)\<lparr>storage := storage st\<rparr>)))"
    using backend_errors_are_caught [where cfg = offline_options and st = st and k = "''b''"
      and c = None and v = "JNum 2" and sv = "JNum 2" and now = "clock_at 2" and sch = prompt
      and e = "Error ''offline''" and ?s1.0 = "storage st" and ttl = None and ts = "[]"]
      s sto(5)
    by simp
  have r3: "delete offline_options ''a'' st
          = (Inr RThis, emit (EvError (Error ''offline'')) (st\<lparr>storage := storage st\<rparr>))"
    using backend_errors_are_caught [where cfg = offline_options and st = st and k = "''a''"
      and it = it and e = "Error ''offline''" and ?s2.0 = "storage st"]
      it d sto(5)
    by simp
  have r4: "fst (delete unreadable_options ''a'' st) = Inr RThis
        \<and> emitted (snd (delete unreadable_options ''a'' st)) = emitted st @ [EvDelete ''a'' JNull]
        \<and> map_of (cache (snd (delete unreadable_options ''a'' st))) ''a'' = None"
    using backend_errors_are_caught [where cfg = unreadable_options and st = st and k = "''a''"
      and it = it and e = "Error ''read failed''" and ?s1.0 = "storage st" and b = True
      and ?s2.0 = "[]"]
      it u
    by blast
  have w: "resumes offline_options (at_write prompt)
             ((set_prepare offline_options prompt ''b'' st)\<lparr>storage := storage st\<rparr>)
           = (set_prepare offline_options prompt ''b'' st)\<lparr>storage := storage st\<rparr>"
    by (rule resumes_none) (simp add: prep sto)
  show ?thesis
    unfolding Let_def st_def [symmetric] r1 r2 r3 w
    using it ex(2) g r4 u(2) sto prep en by simp
qed

text \<open>
  The claim as stated fails on a new engine, which has no listener for \<open>error\<close>: on a
  backend that is offline, \<open>get\<close> of a key that is present rejects with the backend's
  error and counts no miss, and \<open>set\<close> and \<open>delete\<close> reject too.
\<close>

theorem backend_error_rejects_without_listener:
  "(let st = snd (awaited_set (memory_options no_raw) prompt (clock_at 1) ''a'' (JNum 1) None []
                    None (new_engine []));
        (r1, st1) = get offline_options (clock_at 2) ''a'' st;
        (r2, st2) = set_op offline_options prompt (clock_at 2) ''b'' (JNum 2) None [] None st;
        (r3, st3) = delete offline_options ''a'' st
    in \<not> errorListener st \<and> map_of (cache st) ''a'' \<noteq> None
       \<and> r1 = Inl (Error ''offline'') \<and> misses (stats st1) = 0
       \<and> emitted st1 = [EvSet ''a'' (JNum 1), EvError (Error ''offline'')]
       \<and> r2 = Inl (Error ''offline'') \<and> r3 = Inl (Error ''offline''))"
  by code_simp

text \<open>
  It also fails where \<open>delete\<close> reads the value for its notification: on a backend whose
  \<open>get\<close> throws, \<open>delete\<close> of a present key emits no \<open>error\<close> notification and removes the
  key.
\<close>

lemma delete_swallows_read_failure:
  "(let st1 = snd (awaited_set unreadable_options prompt (clock_at 0) ''a'' (JNum 1) None [] None
                     (new_engine []));
        (r, st2) = delete unreadable_options ''a'' st1
    in map_of (cache st1) ''a'' \<noteq> None
       \<and> fst (ad_get (adapter unreadable_options) (storage st1) ''a'') = Inl (Error ''read failed'')
       \<and> r = Inr RThis
       \<and> map_of (cache st2) ''a'' = None
       \<and> emitted st2 = [EvSet ''a'' (JNum 1), EvDelete ''a'' JNull])"
  by code_simp

end
